(* ===== verification/JsPrelude.thy ===== *)
theory JsPrelude
  imports Main "HOL-Library.Word"
begin

text \<open>
  Shared vocabulary of the model of \<^verbatim>\<open>src/server.js\<close>. A JavaScript string is a
  sequence of UTF-16 code units, so it is modelled as a list of \<open>16 word\<close> values
  (\<open>jsstr\<close>), not as an Isabelle \<open>string\<close> (whose characters are bytes). ASCII
  literals of the source are written \<open>js ''...''\<close>. The collection \<open>js_eval\<close> holds
  the unfolding rules that evaluate the model on concrete inputs; \<open>join_with\<close> is
  the separator join shared by \<open>Array.prototype.join\<close> and by the specification of
  the reference normaliser; \<open>sequence_sum\<close> threads a thrown error through a
  list of conversions.
\<close>

type_synonym code_unit = "16 word"
type_synonym jsstr = "code_unit list"

named_theorems js_eval "unfolding rules that evaluate the model on concrete inputs"

definition js :: "string \<Rightarrow> jsstr" where
  "js s = map (\<lambda>c. of_nat (of_char c)) s"

declare js_def [js_eval]

text \<open>
  \<open>join_with sep xs\<close> concatenates the elements of \<open>xs\<close> with \<open>sep\<close> between
  neighbours, as \<open>Array.prototype.join\<close> does once the elements are strings.
\<close>

fun join_with :: "jsstr \<Rightarrow> jsstr list \<Rightarrow> jsstr" where
  "join_with sep [] = []"
| "join_with sep [x] = x"
| "join_with sep (x # y # ys) = x @ sep @ join_with sep (y # ys)"

text \<open>
  \<open>sequence_sum rs\<close> runs a list of computations that may throw, left to right:
  the first error is thrown, otherwise the list of their values is returned.
\<close>

fun sequence_sum :: "('e + 'a) list \<Rightarrow> 'e + 'a list" where
  "sequence_sum [] = Inr []"
| "sequence_sum (Inl e # rs) = Inl e"
| "sequence_sum (Inr x # rs) = map_sum id (Cons x) (sequence_sum rs)"

subsection \<open>Literals\<close>

lemma js_Nil [simp]: "js [] = []"
  by (simp add: js_def)

lemma js_append [simp]: "js (a @ b) = js a @ js b"
  by (simp add: js_def)

lemma length_js [simp]: "length (js s) = length s"
  by (simp add: js_def)

lemma js_eq_Nil_iff [simp]: "js s = [] \<longleftrightarrow> s = []"
  by (simp add: js_def)

subsection \<open>Joining\<close>

lemma join_with_Cons:
  "join_with sep (x # xs) = (if xs = [] then x else x @ sep @ join_with sep xs)"
  by (cases xs) simp_all

lemma length_join_with_ge:
  "\<forall>x\<in>set xs. x \<noteq> [] \<Longrightarrow> length xs \<le> length (join_with sep xs)"
proof (induction sep xs rule: join_with.induct)
  case (3 sep x y ys)
  then have "0 < length x" "length (y # ys) \<le> length (join_with sep (y # ys))" by simp_all
  then show ?case by (simp del: length_greater_0_conv)
qed (simp_all add: Suc_le_eq)

lemma join_with_eq_Nil_iff:
  "sep \<noteq> [] \<Longrightarrow> join_with sep xs = [] \<longleftrightarrow> (\<forall>x\<in>set xs. x = []) \<and> length xs \<le> 1"
  by (induction sep xs rule: join_with.induct) auto

lemma set_join_with:
  "set (join_with sep xs) \<subseteq> \<Union> (set ` set xs) \<union> set sep"
  by (induction sep xs rule: join_with.induct) auto

lemma join_with_map_commute:
  "map f (join_with sep xs) = join_with (map f sep) (map (map f) xs)"
  by (induction sep xs rule: join_with.induct) simp_all

lemma filter_join_with:
  "(\<forall>c\<in>set sep. \<not> P c) \<Longrightarrow> filter P (join_with sep xs) = concat (map (filter P) xs)"
  by (induction sep xs rule: join_with.induct) simp_all

lemma hd_join_with: "x \<noteq> [] \<Longrightarrow> hd (join_with sep (x # xs)) = hd x"
  by (simp add: join_with_Cons)

lemma join_with_snoc:
  "join_with sep (xs @ [x]) = (if xs = [] then x else join_with sep xs @ sep @ x)"
  by (induction xs) (simp_all add: join_with_Cons)

lemma last_join_with:
  assumes "xs \<noteq> []" and "last xs \<noteq> []"
  shows "last (join_with sep xs) = last (last xs)"
proof -
  obtain ys y where "xs = ys @ [y]" using assms(1) by (cases xs rule: rev_cases) auto
  with assms(2) show ?thesis by (simp add: join_with_snoc)
qed

lemma sequence_sum_map_Inr [simp]: "sequence_sum (map (\<lambda>x. Inr (f x)) xs) = Inr (map f xs)"
  by (induction xs) simp_all

lemma map_sum_id_eq_Inl [simp]: "map_sum id f x = Inl e \<longleftrightarrow> x = Inl e"
  by (cases x) simp_all

lemma sequence_sum_Inl: "sequence_sum rs = Inl e \<Longrightarrow> Inl e \<in> set rs"
  by (induction rs rule: sequence_sum.induct) (auto simp: map_sum_def split: sum.splits)

lemma those_map_Some: "those (map (\<lambda>x. Some (f x)) xs) = Some (map f xs)"
  by (induction xs) simp_all

lemma length_concat_map_le:
  "(\<And>x. length (f x) \<le> k) \<Longrightarrow> length (concat (map f xs)) \<le> k * length xs"
proof (induction xs)
  case (Cons x xs)
  then have "length (f x) \<le> k" "length (concat (map f xs)) \<le> k * length xs" by simp_all
  then show ?case by simp
qed simp

subsection \<open>Scanning prefixes\<close>

lemma dropWhile_all_iff:
  "dropWhile P xs = [] \<longleftrightarrow> (\<forall>x\<in>set xs. P x)"
  by simp

lemma dropWhile_Cons_hd:
  "dropWhile P xs = y # ys \<Longrightarrow> \<not> P y"
  by (simp add: dropWhile_eq_Cons_conv)

lemma length_dropWhile_less:
  "xs \<noteq> [] \<Longrightarrow> \<not> P (hd xs) \<Longrightarrow> length (dropWhile (\<lambda>x. \<not> P x) xs) < length xs"
  by (cases xs) (simp_all add: le_imp_less_Suc length_dropWhile_le)

subsection \<open>Code units and bytes\<close>

lemma unat_of_nat_code_unit: "n < 65536 \<Longrightarrow> unat (of_nat n :: code_unit) = n"
  by (rule of_nat_inverse) simp_all

lemma unat_of_nat_byte: "n < 256 \<Longrightarrow> unat (of_nat n :: 8 word) = n"
  by (rule of_nat_inverse) simp_all

lemma unat_byte_less: "unat (b :: 8 word) < 256"
proof -
  have "unat b < 2 ^ LENGTH(8)" by (rule unsigned_less)
  then show ?thesis by simp
qed

lemma unat_ucast_byte: "unat (ucast (b :: 8 word) :: code_unit) = unat b"
  using unat_byte_less [of b] by (simp add: unsigned_ucast_eq take_bit_nat_eq_self_iff)

lemma ucast_ucast_byte: "(ucast (ucast (b :: 8 word) :: code_unit) :: 8 word) = b"
proof -
  have "unat (ucast (ucast b :: code_unit) :: 8 word) = unat b"
    using unat_byte_less [of b]
    by (simp add: unsigned_ucast_eq unsigned_take_bit_eq take_bit_nat_eq_self_iff unat_ucast_byte)
  then show ?thesis by (simp add: word_unat_eq_iff)
qed

lemma code_unit_eq_numeral_iff:
  "(c :: code_unit) = numeral n \<longleftrightarrow> unat c = numeral n" if "numeral n < (65536::nat)"
  using that by (metis unat_of_nat_code_unit of_nat_numeral word_unat_eq_iff)

lemma unat_numeral_plus:
  assumes "numeral k + n < (65536::nat)"
  shows "unat (numeral k + of_nat n :: code_unit) = numeral k + n"
proof -
  have eq: "(numeral k + of_nat n :: code_unit) = of_nat (numeral k + n)" by simp
  from assms have "numeral k + n < 2 ^ LENGTH(16)" by simp
  with of_nat_inverse [OF eq [symmetric]] show ?thesis by simp
qed

lemma div_mod_digits: "(n::nat) div (b * a) * (b * a) + n div b mod a * b + n mod b = n"
proof -
  have "n mod (b * a) = b * (n div b mod a) + n mod b" by (rule mod_mult2_eq)
  moreover have "n div (b * a) * (b * a) + n mod (b * a) = n" by (rule div_mult_mod_eq)
  ultimately show ?thesis by (simp add: algebra_simps)
qed

lemma unat_numeral_plus_byte:
  assumes "numeral k + n < (256::nat)"
  shows "unat (numeral k + of_nat n :: 8 word) = numeral k + n"
proof -
  have eq: "(numeral k + of_nat n :: 8 word) = of_nat (numeral k + n)" by simp
  from assms have "numeral k + n < 2 ^ LENGTH(8)" by simp
  with of_nat_inverse [OF eq [symmetric]] show ?thesis by simp
qed

end
