(* ===== verification/JsValue.thy ===== *)
theory JsValue
  imports JsPrelude
begin

text \<open>
  The JavaScript values that \<^verbatim>\<open>src/server.js\<close> inspects, and the parts of the
  language semantics it relies on: truthiness (the operand of \<open>||\<close>, \<open>!\<close> and
  \<open>if\<close>), the \<open>String(...)\<close>/\<open>ToString\<close> conversion, \<open>Array.prototype.join\<close>,
  property reads on parsed JSON, \<open>Error\<close> objects and the decimal rendering of a
  status number in a template literal.
  \<^item> \<open>qval\<close> is a value of \<open>req.query.q\<close>: Express's query parser yields an absent
    key, a string, an array (repeated keys, \<open>q[]=\<close>) or a nested object (\<open>q[k]=\<close>);
    \<open>QNull\<close> is the \<open>null\<close> the function \<open>normalizeReference\<close> also accepts.
  \<^item> \<open>json\<close> is a value produced by \<open>res.json()\<close> (\<open>JSON.parse\<close>). A number is
    kept as its \<open>Number::toString\<close> rendering, which is all the code observes of it
    (its truthiness: only \<open>0\<close> and \<open>-0\<close>, both rendered \<open>"0"\<close>, are falsy).
    An object keeps its members in source order, duplicates included.
  \<^item> \<open>js_error\<close> is an \<open>Error\<close> or \<open>TypeError\<close> object: its \<open>name\<close> and \<open>message\<close>.
\<close>

datatype qval =
    QUndefined
  | QNull
  | QString jsstr
  | QArray "qval list"
  | QObject "(jsstr \<times> qval) list"

datatype json =
    JNull
  | JBool bool
  | JNum jsstr
  | JStr jsstr
  | JArr "json list"
  | JObj "(jsstr \<times> json) list"

record js_error =
  err_name :: jsstr
  err_message :: jsstr

subsection \<open>Truthiness\<close>

definition qval_truthy :: "qval \<Rightarrow> bool" where
  "qval_truthy v =
     (case v of QUndefined \<Rightarrow> False | QNull \<Rightarrow> False | QString s \<Rightarrow> s \<noteq> [] | _ \<Rightarrow> True)"

definition json_truthy :: "json \<Rightarrow> bool" where
  "json_truthy v =
     (case v of JNull \<Rightarrow> False | JBool b \<Rightarrow> b | JNum r \<Rightarrow> r \<noteq> js ''0''
      | JStr s \<Rightarrow> s \<noteq> [] | _ \<Rightarrow> True)"

subsection \<open>Errors\<close>

definition new_Error :: "jsstr \<Rightarrow> js_error" where
  "new_Error msg = \<lparr>err_name = js ''Error'', err_message = msg\<rparr>"

definition new_TypeError :: "jsstr \<Rightarrow> js_error" where
  "new_TypeError msg = \<lparr>err_name = js ''TypeError'', err_message = msg\<rparr>"

subsection \<open>ToString and Array.prototype.join\<close>

text \<open>
  \<open>Array.prototype.join\<close> renders \<open>undefined\<close> and \<open>null\<close> elements as the empty
  string and every other element by \<open>ToString\<close>, left to right; \<open>ToString\<close> of an
  array is its join with \<open>","\<close>. \<open>ToString\<close> of an object calls
  \<open>OrdinaryToPrimitive\<close> with hint string: it calls the object's \<open>toString\<close>, then
  its \<open>valueOf\<close>, skipping a member that is not callable, and throws a
  \<open>TypeError\<close> when neither returns a primitive. An object of the query parser
  inherits \<open>Object.prototype.toString\<close> and renders \<open>"[object Object]"\<close>. An object
  that \<open>JSON.parse\<close> built from a member named \<open>toString\<close> has that member as its
  own, a JSON value and never callable; \<open>Object.prototype.valueOf\<close> returns the
  object itself, so \<open>ToString\<close> of it throws V8's
  \<open>TypeError: Cannot convert object to primitive value\<close> (\<open>to_primitive_error\<close>).
  A conversion of parsed JSON returns \<open>js_error + jsstr\<close>, the error on the left.
\<close>

fun string_of_qval :: "qval \<Rightarrow> jsstr" where
  "string_of_qval QUndefined = js ''undefined''"
| "string_of_qval QNull = js ''null''"
| "string_of_qval (QString s) = s"
| "string_of_qval (QArray vs) =
     join_with (js '','')
       (map (\<lambda>v. if v = QUndefined \<or> v = QNull then [] else string_of_qval v) vs)"
| "string_of_qval (QObject kvs) = js ''[object Object]''"

definition to_primitive_error :: js_error where
  "to_primitive_error = new_TypeError (js ''Cannot convert object to primitive value'')"

fun string_of_json :: "json \<Rightarrow> js_error + jsstr" where
  "string_of_json JNull = Inr (js ''null'')"
| "string_of_json (JBool b) = Inr (if b then js ''true'' else js ''false'')"
| "string_of_json (JNum r) = Inr r"
| "string_of_json (JStr s) = Inr s"
| "string_of_json (JArr vs) =
     map_sum id (join_with (js '',''))
       (sequence_sum (map (\<lambda>v. if v = JNull then Inr [] else string_of_json v) vs))"
| "string_of_json (JObj kvs) =
     (if map_of kvs (js ''toString'') = None then Inr (js ''[object Object]'') else Inl to_primitive_error)"

definition array_join :: "jsstr \<Rightarrow> json list \<Rightarrow> js_error + jsstr" where
  "array_join sep vs =
     map_sum id (join_with sep) (sequence_sum (map (\<lambda>v. if v = JNull then Inr [] else string_of_json v) vs))"

text \<open>
  \<open>throw new Error(x)\<close> throws the \<open>Error\<close> whose message is \<open>ToString(x)\<close>, or the
  error that this conversion throws.
\<close>

definition new_Error_of :: "json \<Rightarrow> js_error" where
  "new_Error_of x = (case string_of_json x of Inl e \<Rightarrow> e | Inr m \<Rightarrow> new_Error m)"

subsection \<open>Property reads on parsed JSON\<close>

text \<open>
  \<open>get_field v k\<close> is \<open>v[k]\<close> for a key \<open>k\<close> that no built-in prototype defines
  (the code reads only \<open>detail\<close> and \<open>passages\<close>): an own member of an object,
  the last one when \<open>JSON.parse\<close> met the key twice, and \<open>undefined\<close> (\<open>None\<close>)
  for every other value. Reading a property of \<open>null\<close> itself throws; the callers
  decide that case before calling \<open>get_field\<close>.
\<close>

definition get_field :: "json \<Rightarrow> jsstr \<Rightarrow> json option" where
  "get_field v k = (case v of JObj kvs \<Rightarrow> map_of (rev kvs) k | _ \<Rightarrow> None)"

text \<open>\<open>Error.prototype.toString\<close>, which \<open>String(e)\<close> calls.\<close>

definition error_to_string :: "js_error \<Rightarrow> jsstr" where
  "error_to_string e =
     (if err_name e = [] then err_message e
      else if err_message e = [] then err_name e
      else err_name e @ js '': '' @ err_message e)"

subsection \<open>Decimal rendering of a non-negative integer\<close>

text \<open>
  \<open>Number::toString\<close> of a non-negative integer below \<open>10\<^sup>21\<close> is its decimal
  numeral without leading zeros; the code renders HTTP status numbers this way.
  \<open>dec_value\<close> reads a numeral back.
\<close>

fun dec_string :: "nat \<Rightarrow> jsstr" where
  "dec_string n =
     (if n < 10 then [0x30 + of_nat n] else dec_string (n div 10) @ [0x30 + of_nat (n mod 10)])"

declare dec_string.simps [simp del, js_eval]

definition dec_value :: "jsstr \<Rightarrow> nat" where
  "dec_value s = foldl (\<lambda>acc c. 10 * acc + (unat c - 0x30)) 0 s"

declare qval_truthy_def [js_eval] json_truthy_def [js_eval] array_join_def [js_eval]
  to_primitive_error_def [js_eval] new_Error_of_def [js_eval]
  get_field_def [js_eval] new_Error_def [js_eval] new_TypeError_def [js_eval]
  error_to_string_def [js_eval]

subsection \<open>Facts on values\<close>

lemma string_of_json_JArr: "string_of_json (JArr vs) = array_join (js '','') vs"
  by (simp add: array_join_def)

lemma string_of_json_error: "string_of_json v = Inl e \<Longrightarrow> e = to_primitive_error"
proof (induction v arbitrary: e rule: string_of_json.induct)
  case (5 vs)
  then obtain v where "v \<in> set vs" "(if v = JNull then Inr [] else string_of_json v) = Inl e"
    by (auto dest!: sequence_sum_Inl simp: map_sum_def split: sum.splits)
  with "5.IH" show ?case by (auto split: if_splits)
qed (auto split: if_splits)

lemma array_join_error: "array_join sep vs = Inl e \<Longrightarrow> e = to_primitive_error"
  by (auto dest!: sequence_sum_Inl simp: array_join_def map_sum_def string_of_json_error
      split: sum.splits if_splits)

lemma new_Error_of_name: "err_name (new_Error_of x) \<noteq> []"
  by (auto simp: new_Error_of_def new_Error_def to_primitive_error_def new_TypeError_def
      dest: string_of_json_error split: sum.splits)

lemma new_Error_of_JStr: "new_Error_of (JStr m) = new_Error m"
  by (simp add: new_Error_of_def)

lemma array_join_strings: "array_join sep (map JStr ps) = Inr (join_with sep ps)"
  by (simp add: array_join_def comp_def)

lemma error_to_string_ne: "err_name e \<noteq> [] \<Longrightarrow> error_to_string e \<noteq> []"
  by (simp add: error_to_string_def)

lemma get_field_JObj [simp]: "get_field (JObj kvs) k = map_of (rev kvs) k"
  by (simp add: get_field_def)

subsection \<open>Decimal rendering: digits and round trip\<close>

lemma unat_digit:
  assumes "d < 10"
  shows "unat (0x30 + of_nat d :: 16 word) = 48 + d"
proof -
  have eq: "(0x30 + of_nat d :: 16 word) = of_nat (48 + d)" by simp
  have "48 + d < 2 ^ LENGTH(16)" using assms by simp
  with of_nat_inverse [OF eq [symmetric]] show ?thesis by simp
qed

lemma dec_string_ne [simp]: "dec_string n \<noteq> []"
  by (subst dec_string.simps) simp

lemma dec_string_digits: "c \<in> set (dec_string n) \<Longrightarrow> 48 \<le> unat c \<and> unat c \<le> 57"
proof (induction n rule: dec_string.induct)
  case (1 n)
  show ?case
  proof (cases "n < 10")
    case True
    with "1.prems" have "c = 0x30 + of_nat n" by (simp add: dec_string.simps [of n])
    with True show ?thesis by (simp add: unat_digit)
  next
    case False
    with "1.prems" have "c \<in> set (dec_string (n div 10)) \<or> c = 0x30 + of_nat (n mod 10)"
      by (auto simp add: dec_string.simps [of n])
    then show ?thesis
    proof
      assume "c \<in> set (dec_string (n div 10))"
      with False show ?thesis by (rule "1.IH")
    next
      assume "c = 0x30 + of_nat (n mod 10)"
      then show ?thesis by (simp add: unat_digit)
    qed
  qed
qed

lemma dec_value_snoc: "dec_value (xs @ [c]) = 10 * dec_value xs + (unat c - 48)"
  by (simp add: dec_value_def)

lemma dec_value_dec_string: "dec_value (dec_string n) = n"
proof (induction n rule: dec_string.induct)
  case (1 n)
  show ?case
  proof (cases "n < 10")
    case True
    then show ?thesis
      using dec_value_snoc [of "[]" "0x30 + of_nat n"]
      by (simp add: dec_string.simps [of n] unat_digit dec_value_def)
  next
    case False
    with "1.IH" show ?thesis
      by (simp add: dec_string.simps [of n] dec_value_snoc unat_digit)
  qed
qed



end
