(* ===== verification/Normalize.thy ===== *)
theory Normalize
  imports JsValue
begin

text \<open>
  The reference normaliser, \<open>normalizeReference\<close> of \<^verbatim>\<open>src/server.js\<close> (lines
  21--26):
  \<^verbatim>\<open>String(ref || "").trim().replace(/[\u2013\u2014]/g, "-").replace(/\s+/g, " ")\<close>
  Each step is one definition: \<open>String(ref || "")\<close> is \<open>string_of_qval\<close> of the
  operand chosen by \<open>qval_truthy\<close>; \<open>trim\<close> is \<open>js_trim\<close> (\<open>trim_end\<close> after
  \<open>trim_start\<close>); the dash regex replaces each en or em dash code unit by a hyphen
  (\<open>replace_dashes\<close>); the \<open>\s+\<close> regex is the left-to-right scan \<open>collapse_ws\<close>,
  which at a whitespace code unit consumes the longest run (the greedy \<open>+\<close>) and
  emits one space. \<open>is_js_ws\<close> is the set that \<open>\s\<close> and \<open>trim\<close> share in
  ECMAScript: WhiteSpace and LineTerminator code units.

  The abstract specification \<open>normalize_spec\<close> says what the chain computes: the
  whitespace-separated words of the input, dashes made hyphens, joined by single
  spaces. The theory proves the chain equal to it and derives the well-formedness of
  every result, idempotence, the blank-input criterion and preservation of content.
\<close>

definition is_js_ws :: "code_unit \<Rightarrow> bool" where
  "is_js_ws c \<longleftrightarrow>
     c \<in> {0x09, 0x0A, 0x0B, 0x0C, 0x0D, 0x20, 0xA0, 0x1680, 0x2028, 0x2029, 0x202F,
          0x205F, 0x3000, 0xFEFF}
     \<or> (0x2000 \<le> c \<and> c \<le> 0x200A)"

definition is_dash :: "code_unit \<Rightarrow> bool" where
  "is_dash c \<longleftrightarrow> c = 0x2013 \<or> c = 0x2014"

definition trim_start :: "jsstr \<Rightarrow> jsstr" where
  "trim_start s = dropWhile is_js_ws s"

definition trim_end :: "jsstr \<Rightarrow> jsstr" where
  "trim_end s = rev (dropWhile is_js_ws (rev s))"

definition js_trim :: "jsstr \<Rightarrow> jsstr" where
  "js_trim s = trim_end (trim_start s)"

definition dash_to_hyphen :: "code_unit \<Rightarrow> code_unit" where
  "dash_to_hyphen c = (if is_dash c then 0x2D else c)"

definition replace_dashes :: "jsstr \<Rightarrow> jsstr" where
  "replace_dashes s = map dash_to_hyphen s"

function collapse_ws :: "jsstr \<Rightarrow> jsstr" where
  "collapse_ws [] = []"
| "collapse_ws (c # cs) =
     (if is_js_ws c then 0x20 # collapse_ws (dropWhile is_js_ws cs) else c # collapse_ws cs)"
  by pat_completeness auto
termination
  by (relation "measure length") (auto simp: le_imp_less_Suc length_dropWhile_le)

definition normalize_string :: "jsstr \<Rightarrow> jsstr" where
  "normalize_string s = collapse_ws (replace_dashes (js_trim s))"

definition normalize_reference :: "qval \<Rightarrow> jsstr" where
  "normalize_reference ref =
     normalize_string (string_of_qval (if qval_truthy ref then ref else QString []))"

subsection \<open>Specification: words joined by single spaces\<close>

function js_words :: "jsstr \<Rightarrow> jsstr list" where
  "js_words s =
     (let t = dropWhile is_js_ws s in
      if t = [] then []
      else takeWhile (\<lambda>c. \<not> is_js_ws c) t # js_words (dropWhile (\<lambda>c. \<not> is_js_ws c) t))"
  by pat_completeness auto
termination
proof (relation "measure length")
  fix s t
  assume t: "t = dropWhile is_js_ws s" and ne: "t \<noteq> []"
  then have "\<not> is_js_ws (hd t)" by (simp add: hd_dropWhile)
  with ne have "length (dropWhile (\<lambda>c. \<not> is_js_ws c) t) < length t"
    by (rule length_dropWhile_less)
  also have "\<dots> \<le> length s" using t by (simp add: length_dropWhile_le)
  finally show "(dropWhile (\<lambda>c. \<not> is_js_ws c) t, s) \<in> measure length" by simp
qed simp

declare js_words.simps [simp del]

definition normalize_spec :: "jsstr \<Rightarrow> jsstr" where
  "normalize_spec s = join_with [0x20] (js_words (replace_dashes s))"

text \<open>
  The shape of a normalised reference: no dash, no whitespace other than the space,
  none at either end, and no two whitespace code units in a row.
\<close>

fun no_ws_pair :: "jsstr \<Rightarrow> bool" where
  "no_ws_pair (a # b # cs) = (\<not> (is_js_ws a \<and> is_js_ws b) \<and> no_ws_pair (b # cs))"
| "no_ws_pair _ = True"

definition normalized :: "jsstr \<Rightarrow> bool" where
  "normalized t \<longleftrightarrow>
     list_all (\<lambda>c. \<not> is_dash c \<and> (is_js_ws c \<longrightarrow> c = 0x20)) t
     \<and> (t \<noteq> [] \<longrightarrow> \<not> is_js_ws (hd t) \<and> \<not> is_js_ws (last t))
     \<and> no_ws_pair t"

declare is_js_ws_def [js_eval] is_dash_def [js_eval] trim_start_def [js_eval]
  trim_end_def [js_eval] js_trim_def [js_eval] dash_to_hyphen_def [js_eval]
  replace_dashes_def [js_eval] normalize_string_def [js_eval] normalize_reference_def [js_eval]
  normalized_def [js_eval]

subsection \<open>Character classes\<close>

lemma is_js_ws_space [simp]: "is_js_ws 0x20"
  by (simp add: is_js_ws_def)

lemma not_is_js_ws_hyphen [simp]: "\<not> is_js_ws 0x2D"
  by (simp add: is_js_ws_def)

lemma is_js_ws_dash_to_hyphen [simp]: "is_js_ws (dash_to_hyphen c) = is_js_ws c"
  by (auto simp: dash_to_hyphen_def is_dash_def is_js_ws_def)

lemma not_is_dash_dash_to_hyphen [simp]: "\<not> is_dash (dash_to_hyphen c)"
  by (simp add: dash_to_hyphen_def is_dash_def)

lemma not_is_dash_space [simp]: "\<not> is_dash 0x20"
  by (simp add: is_dash_def)

subsection \<open>The regex scan\<close>

lemma collapse_ws_no_ws:
  "\<forall>c\<in>set w. \<not> is_js_ws c \<Longrightarrow> collapse_ws (w @ x) = w @ collapse_ws x"
  by (induction w) auto

lemma collapse_ws_run:
  assumes "r \<noteq> []" and "\<forall>c\<in>set r. is_js_ws c" and "y = [] \<or> \<not> is_js_ws (hd y)"
  shows "collapse_ws (r @ y) = 0x20 # collapse_ws y"
proof -
  obtain c r' where r: "r = c # r'" using assms(1) by (cases r) auto
  have "dropWhile is_js_ws (r' @ y) = dropWhile is_js_ws y"
    using assms(2) r by (simp add: dropWhile_append2)
  also have "\<dots> = y" using assms(3) by (auto simp: dropWhile_eq_self_iff)
  finally show ?thesis using assms(2) r by simp
qed

subsection \<open>Trimming\<close>

lemma trim_end_append_keep:
  "\<exists>c\<in>set y. \<not> is_js_ws c \<Longrightarrow> trim_end (x @ y) = x @ trim_end y"
  by (auto simp: trim_end_def dropWhile_append1)

lemma trim_end_append_ws:
  assumes "\<forall>c\<in>set y. is_js_ws c"
  shows "trim_end (x @ y) = trim_end x"
proof -
  have "dropWhile is_js_ws (rev y @ rev x) = dropWhile is_js_ws (rev x)"
    by (rule dropWhile_append2) (use assms in simp)
  then show ?thesis by (simp add: trim_end_def)
qed

lemma trim_end_no_ws:
  "\<forall>c\<in>set x. \<not> is_js_ws c \<Longrightarrow> trim_end x = x"
  by (cases "rev x") (auto simp: trim_end_def dropWhile_eq_self_iff)

lemma trim_end_Cons_keep:
  assumes "\<not> is_js_ws c"
  shows "\<exists>rest. trim_end (c # s) = c # rest"
proof (cases "\<exists>d\<in>set s. \<not> is_js_ws d")
  case True
  then show ?thesis using trim_end_append_keep [of s "[c]"] by auto
next
  case False
  then have "trim_end ([c] @ s) = trim_end [c]" by (intro trim_end_append_ws) auto
  with assms show ?thesis by (simp add: trim_end_def)
qed

subsection \<open>Words\<close>

lemma js_words_Nil_iff: "js_words s = [] \<longleftrightarrow> (\<forall>c\<in>set s. is_js_ws c)"
  by (simp add: js_words.simps [of s] Let_def)

lemma js_words_Cons_ws:
  "is_js_ws c \<Longrightarrow> js_words (c # s) = js_words s"
  by (simp add: js_words.simps [of "c # s"] js_words.simps [of s])

lemma collapse_trim_words:
  "collapse_ws (trim_end (trim_start s)) = join_with [0x20] (js_words s)"
proof (induction s rule: js_words.induct)
  case (1 s)
  define t where "t = dropWhile is_js_ws s"
  show ?case
  proof (cases "t = []")
    case True
    then have "trim_start s = []" by (simp add: t_def trim_start_def)
    moreover have "js_words s = []" using True by (simp add: js_words_Nil_iff t_def)
    ultimately show ?thesis by (simp add: trim_end_def)
  next
    case False
    define w where "w = takeWhile (\<lambda>c. \<not> is_js_ws c) t"
    define r where "r = dropWhile (\<lambda>c. \<not> is_js_ws c) t"
    have IH: "collapse_ws (trim_end (trim_start r)) = join_with [0x20] (js_words r)"
      using "1.IH" [OF t_def False] by (simp add: r_def)
    have words: "js_words s = w # js_words r"
      using False by (simp add: js_words.simps [of s] Let_def t_def w_def r_def)
    have ts: "trim_start s = w @ r" by (simp add: trim_start_def t_def w_def r_def)
    have hd_t: "\<not> is_js_ws (hd t)" using False by (simp add: t_def hd_dropWhile)
    then have w_ne: "w \<noteq> []" using False by (cases t) (simp_all add: w_def)
    have w_nows: "\<forall>c\<in>set w. \<not> is_js_ws c" by (auto simp: w_def dest: set_takeWhileD)
    show ?thesis
    proof (cases "js_words r = []")
      case True
      then have "\<forall>c\<in>set r. is_js_ws c" by (simp add: js_words_Nil_iff)
      then have "trim_end (w @ r) = w" using w_nows by (simp add: trim_end_append_ws trim_end_no_ws)
      then show ?thesis
        using ts words True w_nows collapse_ws_no_ws [of w "[]"] by simp
    next
      case False
      define run where "run = takeWhile is_js_ws r"
      define r' where "r' = dropWhile is_js_ws r"
      have r_split: "r = run @ r'" by (simp add: run_def r'_def)
      have r'_ne: "r' \<noteq> []" using False by (simp add: r'_def js_words_Nil_iff)
      have hd_r': "\<not> is_js_ws (hd r')" using r'_ne by (simp add: r'_def hd_dropWhile)
      have r_ne: "r \<noteq> []" using r_split r'_ne by auto
      have "is_js_ws (hd r)" using hd_dropWhile [OF r_ne [unfolded r_def]] by (simp add: r_def)
      then have run_ne: "run \<noteq> []" using r_ne by (cases r) (simp_all add: run_def)
      have run_ws: "\<forall>c\<in>set run. is_js_ws c" by (auto simp: run_def dest: set_takeWhileD)
      have keep: "\<exists>c\<in>set r'. \<not> is_js_ws c" using r'_ne hd_r' by (cases r') auto
      have te: "trim_end (w @ run @ r') = w @ run @ trim_end r'"
        using trim_end_append_keep [OF keep, of "w @ run"] by simp
      obtain rest where rest: "trim_end r' = hd r' # rest"
        using trim_end_Cons_keep [OF hd_r', of "tl r'"] r'_ne by auto
      have "collapse_ws (w @ run @ trim_end r') = w @ 0x20 # collapse_ws (trim_end r')"
        using w_nows run_ne run_ws rest hd_r' by (simp add: collapse_ws_no_ws collapse_ws_run)
      moreover have "trim_start r = r'" by (simp add: trim_start_def r'_def)
      ultimately show ?thesis
        using ts r_split te IH words False by (simp add: join_with_Cons)
    qed
  qed
qed

lemma replace_dashes_trim: "replace_dashes (js_trim s) = js_trim (replace_dashes s)"
  by (simp add: replace_dashes_def js_trim_def trim_start_def trim_end_def dropWhile_map
      rev_map comp_def)

lemma normalize_string_spec: "normalize_string s = normalize_spec s"
  unfolding normalize_string_def normalize_spec_def replace_dashes_trim
  by (simp add: js_trim_def collapse_trim_words)

lemma js_words_valid:
  "w \<in> set (js_words s) \<Longrightarrow> w \<noteq> [] \<and> (\<forall>c\<in>set w. \<not> is_js_ws c) \<and> set w \<subseteq> set s"
proof (induction s rule: js_words.induct)
  case (1 s)
  define t where "t = dropWhile is_js_ws s"
  have ne: "t \<noteq> []"
  proof
    assume "t = []"
    then have "js_words s = []" by (simp add: js_words_Nil_iff t_def)
    with "1.prems" show False by simp
  qed
  have sub: "set t \<subseteq> set s" by (auto simp: t_def dest: set_dropWhileD)
  have "js_words s = takeWhile (\<lambda>c. \<not> is_js_ws c) t # js_words (dropWhile (\<lambda>c. \<not> is_js_ws c) t)"
    using ne by (simp add: js_words.simps [of s] Let_def t_def)
  with "1.prems" consider
      "w = takeWhile (\<lambda>c. \<not> is_js_ws c) t"
    | "w \<in> set (js_words (dropWhile (\<lambda>c. \<not> is_js_ws c) t))"
    by auto
  then show ?case
  proof cases
    case 1
    have "\<not> is_js_ws (hd t)" using ne by (simp add: t_def hd_dropWhile)
    with ne have "w \<noteq> []" using 1 by (cases t) simp_all
    with 1 sub show ?thesis by (auto dest: set_takeWhileD)
  next
    case 2
    with "1.IH" [OF t_def ne] sub show ?thesis by (auto dest: set_dropWhileD)
  qed
qed

lemma js_words_word:
  assumes "w \<noteq> []" and "\<forall>c\<in>set w. \<not> is_js_ws c" and "x = [] \<or> is_js_ws (hd x)"
  shows "js_words (w @ x) = w # js_words x"
proof -
  have "dropWhile is_js_ws (w @ x) = w @ x"
    using assms(1,2) by (cases w) (simp_all add: dropWhile_eq_self_iff)
  moreover have "takeWhile (\<lambda>c. \<not> is_js_ws c) (w @ x) = w"
    using assms(2,3) by (cases x) (auto simp: takeWhile_append2)
  moreover have "dropWhile (\<lambda>c. \<not> is_js_ws c) (w @ x) = x"
    using assms(2,3) by (cases x) (auto simp: dropWhile_append2)
  ultimately show ?thesis using assms(1) by (simp add: js_words.simps [of "w @ x"])
qed

lemma js_words_join:
  "\<forall>w\<in>set ws. w \<noteq> [] \<and> (\<forall>c\<in>set w. \<not> is_js_ws c) \<Longrightarrow> js_words (join_with [0x20] ws) = ws"
proof (induction ws)
  case Nil
  then show ?case by (simp add: js_words_Nil_iff)
next
  case (Cons w ws)
  then have w: "w \<noteq> []" "\<forall>c\<in>set w. \<not> is_js_ws c" by simp_all
  show ?case
  proof (cases "ws = []")
    case True
    then show ?thesis using js_words_word [OF w, of "[]"] by (simp add: js_words_Nil_iff)
  next
    case False
    then have "js_words (join_with [0x20] (w # ws)) = w # js_words (0x20 # join_with [0x20] ws)"
      using js_words_word [OF w, of "0x20 # join_with [0x20] ws"] by (simp add: join_with_Cons)
    with Cons show ?thesis by (simp add: js_words_Cons_ws)
  qed
qed

lemma set_replace_dashes_no_dash: "c \<in> set (replace_dashes s) \<Longrightarrow> \<not> is_dash c"
  by (auto simp: replace_dashes_def)

lemma replace_dashes_id: "\<forall>c\<in>set s. \<not> is_dash c \<Longrightarrow> replace_dashes s = s"
  by (simp add: replace_dashes_def dash_to_hyphen_def map_idI)

lemma normalize_spec_words:
  "w \<in> set (js_words (replace_dashes s)) \<Longrightarrow>
     w \<noteq> [] \<and> (\<forall>c\<in>set w. \<not> is_js_ws c \<and> \<not> is_dash c)"
  using js_words_valid [of w "replace_dashes s"] set_replace_dashes_no_dash by blast

lemma normalize_string_idem: "normalize_string (normalize_string s) = normalize_string s"
proof -
  define ws where "ws = js_words (replace_dashes s)"
  have valid: "\<forall>w\<in>set ws. w \<noteq> [] \<and> (\<forall>c\<in>set w. \<not> is_js_ws c \<and> \<not> is_dash c)"
    using normalize_spec_words by (simp add: ws_def)
  have "\<forall>c\<in>set (join_with [0x20] ws). \<not> is_dash c"
    using set_join_with [of "[0x20]" ws] valid by fastforce
  then have "replace_dashes (join_with [0x20] ws) = join_with [0x20] ws"
    by (rule replace_dashes_id)
  moreover have "js_words (join_with [0x20] ws) = ws"
    using valid by (intro js_words_join) simp
  ultimately show ?thesis
    by (simp add: normalize_string_spec normalize_spec_def ws_def)
qed

lemma normalize_reference_QString: "normalize_reference (QString s) = normalize_string s"
  by (simp add: normalize_reference_def qval_truthy_def)

lemma normalize_string_Nil_iff: "normalize_string s = [] \<longleftrightarrow> (\<forall>c\<in>set s. is_js_ws c)"
proof -
  have "normalize_string s = [] \<longleftrightarrow> js_words (replace_dashes s) = []"
    using normalize_spec_words [of _ s]
    by (auto simp: normalize_string_spec normalize_spec_def join_with_eq_Nil_iff
        le_Suc_eq length_Suc_conv)
  also have "\<dots> \<longleftrightarrow> (\<forall>c\<in>set s. is_js_ws c)"
    by (simp add: js_words_Nil_iff replace_dashes_def)
  finally show ?thesis .
qed

lemma concat_js_words: "concat (js_words s) = filter (\<lambda>c. \<not> is_js_ws c) s"
proof (induction s rule: js_words.induct)
  case (1 s)
  define t where "t = dropWhile is_js_ws s"
  have ft: "filter (\<lambda>c. \<not> is_js_ws c) s = filter (\<lambda>c. \<not> is_js_ws c) t"
  proof -
    have "s = takeWhile is_js_ws s @ t" by (simp add: t_def)
    then show ?thesis by (metis filter_False filter_append append_Nil set_takeWhileD)
  qed
  show ?case
  proof (cases "t = []")
    case True
    then show ?thesis using ft by (simp add: js_words.simps [of s] t_def)
  next
    case False
    have "t = takeWhile (\<lambda>c. \<not> is_js_ws c) t @ dropWhile (\<lambda>c. \<not> is_js_ws c) t" by simp
    then have "filter (\<lambda>c. \<not> is_js_ws c) t =
        takeWhile (\<lambda>c. \<not> is_js_ws c) t @ filter (\<lambda>c. \<not> is_js_ws c) (dropWhile (\<lambda>c. \<not> is_js_ws c) t)"
      by (metis filter_True filter_append set_takeWhileD)
    with False ft "1.IH" [OF t_def False] show ?thesis
      by (simp add: js_words.simps [of s] t_def [symmetric] Let_def)
  qed
qed

lemma normalize_string_content:
  "filter (\<lambda>c. \<not> is_js_ws c) (normalize_string s) = replace_dashes (filter (\<lambda>c. \<not> is_js_ws c) s)"
proof -
  define ws where "ws = js_words (replace_dashes s)"
  have "\<forall>w\<in>set ws. filter (\<lambda>c. \<not> is_js_ws c) w = w"
    using normalize_spec_words by (simp add: ws_def)
  then have "filter (\<lambda>c. \<not> is_js_ws c) (join_with [0x20] ws) = concat ws"
    by (simp add: filter_join_with map_idI)
  also have "\<dots> = filter (\<lambda>c. \<not> is_js_ws c) (replace_dashes s)"
    by (simp add: ws_def concat_js_words)
  finally show ?thesis
    by (simp add: normalize_string_spec normalize_spec_def ws_def replace_dashes_def filter_map
        comp_def)
qed

lemma no_ws_pair_Cons:
  "no_ws_pair (a # xs) \<longleftrightarrow> (xs \<noteq> [] \<longrightarrow> \<not> (is_js_ws a \<and> is_js_ws (hd xs))) \<and> no_ws_pair xs"
  by (cases xs) auto

lemma no_ws_pair_append:
  "no_ws_pair (x @ y) \<longleftrightarrow>
     no_ws_pair x \<and> no_ws_pair y \<and> (x \<noteq> [] \<and> y \<noteq> [] \<longrightarrow> \<not> (is_js_ws (last x) \<and> is_js_ws (hd y)))"
  by (induction x) (auto simp: no_ws_pair_Cons)

lemma no_ws_pair_no_ws: "\<forall>c\<in>set w. \<not> is_js_ws c \<Longrightarrow> no_ws_pair w"
  by (induction w rule: no_ws_pair.induct) auto

lemma join_words_hd:
  "ws \<noteq> [] \<Longrightarrow> \<forall>w\<in>set ws. w \<noteq> [] \<and> (\<forall>c\<in>set w. \<not> is_js_ws c) \<Longrightarrow>
     join_with [0x20] ws \<noteq> [] \<and> \<not> is_js_ws (hd (join_with [0x20] ws))"
  by (cases ws) (auto simp: join_with_Cons)

lemma join_words_no_ws_pair:
  "\<forall>w\<in>set ws. w \<noteq> [] \<and> (\<forall>c\<in>set w. \<not> is_js_ws c) \<Longrightarrow> no_ws_pair (join_with [0x20] ws)"
proof (induction ws)
  case Nil
  then show ?case by simp
next
  case (Cons w ws)
  show ?case
  proof (cases "ws = []")
    case True
    with Cons.prems show ?thesis by (simp add: no_ws_pair_no_ws)
  next
    case False
    have hd: "join_with [0x20] ws \<noteq> [] \<and> \<not> is_js_ws (hd (join_with [0x20] ws))"
      using False Cons.prems by (intro join_words_hd) simp_all
    have "last w \<in> set w" using Cons.prems by simp
    with Cons show ?thesis using False hd
      by (simp add: join_with_Cons no_ws_pair_append no_ws_pair_Cons no_ws_pair_no_ws)
  qed
qed

lemma normalize_string_normalized: "normalized (normalize_string s)"
proof -
  define ws where "ws = js_words (replace_dashes s)"
  have valid: "\<forall>w\<in>set ws. w \<noteq> [] \<and> (\<forall>c\<in>set w. \<not> is_js_ws c \<and> \<not> is_dash c)"
    using normalize_spec_words by (simp add: ws_def)
  then have valid': "\<forall>w\<in>set ws. w \<noteq> [] \<and> (\<forall>c\<in>set w. \<not> is_js_ws c)" by simp
  have chars: "list_all (\<lambda>c. \<not> is_dash c \<and> (is_js_ws c \<longrightarrow> c = 0x20)) (join_with [0x20] ws)"
    using set_join_with [of "[0x20]" ws] valid by (fastforce simp: list_all_iff)
  have ends: "join_with [0x20] ws \<noteq> [] \<longrightarrow>
      \<not> is_js_ws (hd (join_with [0x20] ws)) \<and> \<not> is_js_ws (last (join_with [0x20] ws))"
  proof
    assume ne: "join_with [0x20] ws \<noteq> []"
    then have ws: "ws \<noteq> []" by auto
    then have "last ws \<in> set ws" by simp
    with valid' have lw: "last ws \<noteq> []" "\<forall>c\<in>set (last ws). \<not> is_js_ws c" by auto
    then have "\<not> is_js_ws (last (join_with [0x20] ws))" using ws by (simp add: last_join_with)
    with join_words_hd [OF ws valid'] show
      "\<not> is_js_ws (hd (join_with [0x20] ws)) \<and> \<not> is_js_ws (last (join_with [0x20] ws))"
      by simp
  qed
  show ?thesis
    using chars ends join_words_no_ws_pair [OF valid']
    by (simp add: normalized_def normalize_string_spec normalize_spec_def ws_def)
qed

subsection \<open>Properties of normalizeReference\<close>

text \<open>
  C14: normalising is idempotent: normalising the result of \<open>normalizeReference\<close>
  again returns it unchanged (spec section 8).
\<close>

theorem normalize_reference_idem:
  "normalize_reference (QString (normalize_reference ref)) = normalize_reference ref"
proof -
  have "normalize_reference (QString (normalize_reference ref)) =
      normalize_string (normalize_reference ref)"
    by (rule normalize_reference_QString)
  also have "\<dots> = normalize_reference ref"
    by (simp only: normalize_reference_def normalize_string_idem)
  finally show ?thesis .
qed

text \<open>
  C15: every result of \<open>normalizeReference\<close> is in normal form: no en or em dash,
  no whitespace but the plain space, none at either end, never two in a row.
\<close>

theorem normalize_reference_normalized: "normalized (normalize_reference ref)"
  by (simp add: normalize_reference_def normalize_string_normalized)

lemma normalize_reference_normalized_witness:
  "normalize_reference (QString (js '' John  3:16 '')) = js ''John 3:16''
   \<and> normalized (normalize_reference (QString (js '' John  3:16 '')))"
  using normalize_reference_normalized [of "QString (js '' John  3:16 '')"]
  by (simp add: js_eval)

text \<open>
  C16: the three-pass chain of \<open>normalizeReference\<close> (trim, dash replacement, regex
  scan over whitespace runs) computes its specification: the whitespace-separated
  words of \<open>String(ref || "")\<close>, dashes made hyphens, joined by single spaces.
\<close>

theorem normalize_reference_refines:
  "normalize_reference ref =
     normalize_spec (string_of_qval (if qval_truthy ref then ref else QString []))"
  by (simp add: normalize_reference_def normalize_string_spec)

text \<open>
  A string query normalises to the empty string, and is rejected by the
  \<open>/passage\<close> handler, exactly when every code unit of it is JavaScript whitespace.
\<close>

theorem normalize_reference_blank_iff:
  "normalize_reference (QString s) = [] \<longleftrightarrow> (\<forall>c\<in>set s. is_js_ws c)"
  by (simp add: normalize_reference_QString normalize_string_Nil_iff)

lemma normalize_reference_blank_iff_witness:
  "normalize_reference (QString [0x20, 0x3000, 0x09, 0x2028]) = []
   \<and> normalize_reference (QString (js '' a '')) \<noteq> []"
proof -
  have "\<forall>c\<in>set [0x20, 0x3000, 0x09, 0x2028]. is_js_ws c" by (simp add: js_eval)
  moreover have "\<not> (\<forall>c\<in>set (js '' a ''). is_js_ws c)" by (simp add: js_eval)
  ultimately show ?thesis
    using normalize_reference_blank_iff [of "[0x20, 0x3000, 0x09, 0x2028]"]
      normalize_reference_blank_iff [of "js '' a ''"]
    by blast
qed

text \<open>
  C18: normalising keeps every non-whitespace code unit of a string query, in order,
  and changes only the dashes: each en or em dash becomes a hyphen where it stood.
\<close>

theorem normalize_reference_content:
  "filter (\<lambda>c. \<not> is_js_ws c) (normalize_reference (QString s)) =
     map dash_to_hyphen (filter (\<lambda>c. \<not> is_js_ws c) s)"
  using normalize_string_content [of s]
  by (simp add: normalize_reference_QString replace_dashes_def)

text \<open>
  An absent, null or empty query normalises to the empty string (spec section 8).
\<close>

theorem normalize_reference_absent:
  "normalize_reference QUndefined = [] \<and> normalize_reference QNull = []
   \<and> normalize_reference (QString []) = []"
  by (simp add: normalize_reference_def qval_truthy_def normalize_string_def js_trim_def
      trim_start_def trim_end_def replace_dashes_def)


text \<open>
  \<open>String(ref || "")\<close> turns a repeated or bracketed query parameter into text
  rather than into the empty string: an array is joined with commas and an object
  becomes \<open>[object Object]\<close>, and both are sent upstream as the reference.
\<close>

theorem normalize_reference_array:
  "normalize_reference (QArray [QString (js ''John 3:16''), QString (js ''18'')]) = js ''John 3:16,18''
   \<and> normalize_reference (QObject [(js ''book'', QString (js ''John''))]) = js ''[object Object]''"
  by (simp add: js_eval)

end
