(* ===== verification/Async.thy ===== *)
theory Async
  imports JsValue
begin

text \<open>
  The interface between the request handlers of \<^verbatim>\<open>src/server.js\<close> and the
  upstream scripture API. A request suspends at most at one point, the awaited
  \<open>fetch\<close> of \<open>esvGet\<close>; the handler is therefore a small program over one
  effect: \<open>Ret a\<close> finishes with \<open>a\<close>, \<open>Await r k\<close> issues the outbound request
  \<open>r\<close> and resumes with \<open>k\<close> applied to what the transport delivers. An
  \<open>upstream\<close> answers an outbound request with a response (its status and its body
  as parsed by \<open>res.json()\<close>, \<open>None\<close> when that promise rejects) or with the
  rejection of \<open>fetch\<close> itself. \<open>run_prog\<close> runs a program against an upstream and
  returns the outbound requests it issued, in order, with its result: the explicit
  sequence of steps of one request.
\<close>

record outbound_request =
  req_url :: jsstr
  req_headers :: "(jsstr \<times> jsstr) list"

datatype fetch_outcome =
    FetchRejected js_error
  | FetchResponse nat "json option"

datatype 'a prog =
    Ret 'a
  | Await outbound_request "fetch_outcome \<Rightarrow> 'a prog"

type_synonym upstream = "outbound_request \<Rightarrow> fetch_outcome"

primrec bind_prog :: "'a prog \<Rightarrow> ('a \<Rightarrow> 'b prog) \<Rightarrow> 'b prog" where
  "bind_prog (Ret a) f = f a"
| "bind_prog (Await r k) f = Await r (\<lambda>x. bind_prog (k x) f)"

primrec run_prog :: "upstream \<Rightarrow> 'a prog \<Rightarrow> outbound_request list \<times> 'a" where
  "run_prog u (Ret a) = ([], a)"
| "run_prog u (Await r k) = (let (rs, a) = run_prog u (k (u r)) in (r # rs, a))"

lemma run_prog_bind:
  "run_prog u (bind_prog p f) =
     (fst (run_prog u p) @ fst (run_prog u (f (snd (run_prog u p)))),
      snd (run_prog u (f (snd (run_prog u p)))))"
  by (induction p) (simp_all add: split_beta Let_def)

lemma run_prog_Await_Ret [simp]:
  "run_prog u (Await r (\<lambda>x. Ret (g x))) = ([r], g (u r))"
  by simp

end
