(* ===== verification/Fetcher.thy ===== *)
theory Fetcher
  imports Async
begin

text \<open>
  The upstream fetcher, \<open>esvGet(url)\<close> of \<^verbatim>\<open>src/server.js\<close> (lines 28--40):
  one \<open>fetch\<close> carrying the credential in the header
  \<open>Authorization: Token <key>\<close> (\<open>esv_request\<close>), then, when the response
  arrives, \<open>esv_get_result\<close>: the body parsed as JSON, a parse failure replaced by
  \<open>{}\<close>; a status outside \<open>200..299\<close> (\<open>!res.ok\<close>) throws
  \<open>new Error(data?.detail || `HTTP ${res.status}`)\<close> (\<open>upstream_message\<close> is the
  argument, \<open>new_Error_of\<close> the error thrown, which is a \<open>TypeError\<close> when the
  argument's \<open>ToString\<close> throws); otherwise the parsed data is returned. A rejected \<open>fetch\<close> propagates as the same rejection. Errors are the
  left side of the sum. The credential \<open>ESV_API_KEY\<close>, a module constant read
  once at start-up, is passed as the parameter \<open>key\<close>.
\<close>

definition esv_request :: "jsstr \<Rightarrow> jsstr \<Rightarrow> outbound_request" where
  "esv_request key url =
     \<lparr>req_url = url, req_headers = [(js ''Authorization'', js ''Token '' @ key)]\<rparr>"

definition response_ok :: "nat \<Rightarrow> bool" where
  "response_ok st \<longleftrightarrow> 200 \<le> st \<and> st \<le> 299"

definition parsed_or_empty :: "json option \<Rightarrow> json" where
  "parsed_or_empty body = (case body of None \<Rightarrow> JObj [] | Some d \<Rightarrow> d)"

definition upstream_message :: "json \<Rightarrow> nat \<Rightarrow> json" where
  "upstream_message data st =
     (case get_field data (js ''detail'') of
        Some d \<Rightarrow> if json_truthy d then d else JStr (js ''HTTP '' @ dec_string st)
      | None \<Rightarrow> JStr (js ''HTTP '' @ dec_string st))"

definition esv_get_result :: "fetch_outcome \<Rightarrow> js_error + json" where
  "esv_get_result out =
     (case out of
        FetchRejected e \<Rightarrow> Inl e
      | FetchResponse st body \<Rightarrow>
          (let data = parsed_or_empty body in
           if \<not> response_ok st then Inl (new_Error_of (upstream_message data st)) else Inr data))"

definition esv_get :: "jsstr \<Rightarrow> jsstr \<Rightarrow> (js_error + json) prog" where
  "esv_get key url = Await (esv_request key url) (\<lambda>out. Ret (esv_get_result out))"

declare esv_request_def [js_eval] response_ok_def [js_eval] parsed_or_empty_def [js_eval]
  upstream_message_def [js_eval] esv_get_result_def [js_eval] esv_get_def [js_eval]

subsection \<open>Properties of esvGet\<close>

lemma dec_string_list_all: "list_all (\<lambda>c. 48 \<le> unat c \<and> unat c \<le> 57) (dec_string n)"
  by (simp add: list_all_iff dec_string_digits)

text \<open>
  C30: \<open>esvGet\<close> resolves with data exactly when its single request gets a response
  with a status in 200..299, and the data is then the parsed body, or \<open>{}\<close> when the
  body does not parse.
\<close>

theorem esv_get_ok_iff:
  "snd (run_prog u (esv_get key url)) = Inr data \<longleftrightarrow>
     (\<exists>st body. u (esv_request key url) = FetchResponse st body \<and> response_ok st
                \<and> data = parsed_or_empty body)"
  by (cases "u (esv_request key url)") (auto simp: esv_get_def esv_get_result_def Let_def)

lemma esv_get_ok_iff_witness:
  "snd (run_prog (\<lambda>r. FetchResponse 204 None) (esv_get (js ''key'') (js ''u''))) = Inr (JObj [])
   \<and> snd (run_prog (\<lambda>r. FetchResponse 404 None) (esv_get (js ''key'') (js ''u''))) \<noteq> Inr (JObj [])"
  using esv_get_ok_iff [of "\<lambda>r. FetchResponse 204 None" "js ''key''" "js ''u''" "JObj []"]
    esv_get_ok_iff [of "\<lambda>r. FetchResponse 404 None" "js ''key''" "js ''u''" "JObj []"]
  by (simp add: response_ok_def parsed_or_empty_def)

text \<open>
  C31: a failing status without a \<open>detail\<close> makes \<open>esvGet\<close> throw an \<open>Error\<close> whose
  message is \<open>HTTP \<close> followed by a decimal numeral of digits only that reads back
  as the status.
\<close>

theorem esv_get_status_message:
  assumes "\<not> response_ok st" and "get_field (parsed_or_empty body) (js ''detail'') = None"
  shows "\<exists>m. esv_get_result (FetchResponse st body) = Inl (new_Error (js ''HTTP '' @ m))
           \<and> m \<noteq> [] \<and> list_all (\<lambda>c. 48 \<le> unat c \<and> unat c \<le> 57) m \<and> dec_value m = st"
proof (intro exI conjI)
  show "esv_get_result (FetchResponse st body) = Inl (new_Error (js ''HTTP '' @ dec_string st))"
    using assms by (simp add: esv_get_result_def upstream_message_def new_Error_of_def)
qed (simp_all add: dec_string_list_all dec_value_dec_string)

lemma esv_get_status_message_witness:
  "esv_get_result (FetchResponse 502 None) = Inl (new_Error (js ''HTTP 502''))
   \<and> dec_value (js ''502'') = 502"
proof -
  have "\<not> response_ok 502" "get_field (parsed_or_empty None) (js ''detail'') = None"
    by (simp_all add: js_eval)
  from esv_get_status_message [OF this] obtain m where
    "esv_get_result (FetchResponse 502 None) = Inl (new_Error (js ''HTTP '' @ m))" and "dec_value m = 502"
    by blast
  then show ?thesis by (simp add: js_eval)
qed

end
