(* ===== verification/Unicode.thy ===== *)
theory Unicode
  imports JsPrelude
begin

text \<open>
  The Unicode layer under the string conversions of \<^verbatim>\<open>src/server.js\<close>. A JS
  string is a list of UTF-16 code units and may hold lone surrogates. Two library
  operations the code relies on convert it to bytes: \<open>URLSearchParams\<close> (line 49)
  and \<open>res.json\<close> (lines 47, 63, 65), which sends its text as UTF-8. Both first
  read the string as a list of scalar values, turning each lone surrogate into
  U+FFFD (\<open>utf16_scalars\<close>, the WHATWG ``convert to a scalar value string''), and
  then encode each scalar as UTF-8 (\<open>utf8_encode\<close>).

  The receiving side is specification, not code of the repository:
  \<^item> \<open>utf8_decode\<close> is the strict UTF-8 decoder of RFC 3629: shortest form only,
    no surrogates, nothing above U+10FFFF;
  \<^item> \<open>utf16_encode\<close> writes scalars back as code units;
  \<^item> \<open>to_well_formed\<close> is ECMAScript's \<open>String.prototype.toWellFormed\<close>;
  \<^item> \<open>well_formed_utf16\<close> is its \<open>isWellFormed\<close>.
\<close>

definition is_high_surrogate :: "code_unit \<Rightarrow> bool" where
  "is_high_surrogate c \<longleftrightarrow> 0xD800 \<le> c \<and> c \<le> 0xDBFF"

definition is_low_surrogate :: "code_unit \<Rightarrow> bool" where
  "is_low_surrogate c \<longleftrightarrow> 0xDC00 \<le> c \<and> c \<le> 0xDFFF"

fun utf16_scalars :: "jsstr \<Rightarrow> nat list" where
  "utf16_scalars [] = []"
| "utf16_scalars (c # cs) =
     (if is_high_surrogate c then
        (case cs of
           [] \<Rightarrow> [0xFFFD]
         | d # ds \<Rightarrow>
             if is_low_surrogate d
             then (0x10000 + (unat c - 0xD800) * 0x400 + (unat d - 0xDC00)) # utf16_scalars ds
             else 0xFFFD # utf16_scalars cs)
      else if is_low_surrogate c then 0xFFFD # utf16_scalars cs
      else unat c # utf16_scalars cs)"

definition utf8_encode :: "nat \<Rightarrow> 8 word list" where
  "utf8_encode cp =
     (if cp < 0x80 then [of_nat cp]
      else if cp < 0x800 then [of_nat (0xC0 + cp div 0x40), of_nat (0x80 + cp mod 0x40)]
      else if cp < 0x10000 then
        [of_nat (0xE0 + cp div 0x1000), of_nat (0x80 + cp div 0x40 mod 0x40),
         of_nat (0x80 + cp mod 0x40)]
      else
        [of_nat (0xF0 + cp div 0x40000), of_nat (0x80 + cp div 0x1000 mod 0x40),
         of_nat (0x80 + cp div 0x40 mod 0x40), of_nat (0x80 + cp mod 0x40)])"

definition utf8_bytes :: "jsstr \<Rightarrow> 8 word list" where
  "utf8_bytes s = concat (map utf8_encode (utf16_scalars s))"

subsection \<open>The receiving side\<close>

definition valid_scalar :: "nat \<Rightarrow> bool" where
  "valid_scalar cp \<longleftrightarrow> cp < 0x110000 \<and> (cp < 0xD800 \<or> 0xDFFF < cp)"

definition utf16_encode_cp :: "nat \<Rightarrow> jsstr" where
  "utf16_encode_cp cp =
     (if cp < 0x10000 then [of_nat cp]
      else [of_nat (0xD800 + (cp - 0x10000) div 0x400), of_nat (0xDC00 + (cp - 0x10000) mod 0x400)])"

definition utf16_encode :: "nat list \<Rightarrow> jsstr" where
  "utf16_encode cps = concat (map utf16_encode_cp cps)"

fun to_well_formed :: "jsstr \<Rightarrow> jsstr" where
  "to_well_formed [] = []"
| "to_well_formed (c # cs) =
     (if is_high_surrogate c then
        (case cs of
           [] \<Rightarrow> [0xFFFD]
         | d # ds \<Rightarrow>
             if is_low_surrogate d then c # d # to_well_formed ds
             else 0xFFFD # to_well_formed cs)
      else if is_low_surrogate c then 0xFFFD # to_well_formed cs
      else c # to_well_formed cs)"

fun well_formed_utf16 :: "jsstr \<Rightarrow> bool" where
  "well_formed_utf16 [] = True"
| "well_formed_utf16 (c # cs) =
     (if is_high_surrogate c then
        (case cs of
           [] \<Rightarrow> False
         | d # ds \<Rightarrow> is_low_surrogate d \<and> well_formed_utf16 ds)
      else \<not> is_low_surrogate c \<and> well_formed_utf16 cs)"

definition utf8_cont :: "8 word \<Rightarrow> bool" where
  "utf8_cont b \<longleftrightarrow> 0x80 \<le> unat b \<and> unat b < 0xC0"

fun utf8_decode :: "8 word list \<Rightarrow> nat list option" where
  "utf8_decode [] = Some []"
| "utf8_decode (b # bs) =
     (if unat b < 0x80 then map_option (Cons (unat b)) (utf8_decode bs)
      else if unat b < 0xE0 then
        (case bs of
           c # r \<Rightarrow>
             (let cp = (unat b - 0xC0) * 0x40 + (unat c - 0x80) in
              if 0xC0 \<le> unat b \<and> utf8_cont c \<and> 0x80 \<le> cp
              then map_option (Cons cp) (utf8_decode r) else None)
         | [] \<Rightarrow> None)
      else if unat b < 0xF0 then
        (case bs of
           c # d # r \<Rightarrow>
             (let cp = (unat b - 0xE0) * 0x1000 + (unat c - 0x80) * 0x40 + (unat d - 0x80) in
              if utf8_cont c \<and> utf8_cont d \<and> 0x800 \<le> cp \<and> (cp < 0xD800 \<or> 0xDFFF < cp)
              then map_option (Cons cp) (utf8_decode r) else None)
         | _ \<Rightarrow> None)
      else if unat b < 0xF8 then
        (case bs of
           c # d # e # r \<Rightarrow>
             (let cp = (unat b - 0xF0) * 0x40000 + (unat c - 0x80) * 0x1000
                       + (unat d - 0x80) * 0x40 + (unat e - 0x80) in
              if utf8_cont c \<and> utf8_cont d \<and> utf8_cont e \<and> 0x10000 \<le> cp \<and> cp < 0x110000
              then map_option (Cons cp) (utf8_decode r) else None)
         | _ \<Rightarrow> None)
      else None)"

declare is_high_surrogate_def [js_eval] is_low_surrogate_def [js_eval] utf8_encode_def [js_eval] utf8_bytes_def [js_eval] valid_scalar_def [js_eval]
  utf16_encode_cp_def [js_eval] utf16_encode_def [js_eval] utf8_cont_def [js_eval]

subsection \<open>UTF-8\<close>

lemma utf8_decode_encode:
  assumes "valid_scalar cp"
  shows "utf8_decode (utf8_encode cp @ rest) = map_option (Cons cp) (utf8_decode rest)"
proof -
  have lim: "cp < 0x110000" "cp < 0xD800 \<or> 0xDFFF < cp"
    using assms by (simp_all add: valid_scalar_def)
  define b0 b1 b2 b3 :: "8 word"
    where "b0 = of_nat (cp mod 0x40)" and "b1 = of_nat (cp div 0x40)"
      and "b2 = of_nat (cp div 0x1000)" and "b3 = of_nat (cp div 0x40000)"
  define m1 m2 :: "8 word"
    where "m1 = of_nat (cp div 0x40 mod 0x40)" and "m2 = of_nat (cp div 0x1000 mod 0x40)"
  have t: "unat (0x80 + b0) = 0x80 + cp mod 0x40" "unat (0x80 + m1) = 0x80 + cp div 0x40 mod 0x40"
    "unat (0x80 + m2) = 0x80 + cp div 0x1000 mod 0x40"
    unfolding b0_def m1_def m2_def by (simp_all add: unat_numeral_plus_byte)
  consider "cp < 0x80" | "0x80 \<le> cp" "cp < 0x800" | "0x800 \<le> cp" "cp < 0x10000"
    | "0x10000 \<le> cp" by linarith
  then show ?thesis
  proof cases
    case 1
    then show ?thesis by (simp add: utf8_encode_def unat_of_nat_byte)
  next
    case 2
    then have "unat (0xC0 + b1) = 0xC0 + cp div 0x40"
      unfolding b1_def by (simp add: unat_numeral_plus_byte)
    moreover have "cp div 64 * 64 + cp mod 64 = cp" "cp div 64 < 32"
      using 2 by (simp_all add: div_less_iff_less_mult)
    moreover have "utf8_encode cp = [0xC0 + b1, 0x80 + b0]"
      using 2 by (simp add: utf8_encode_def b0_def b1_def)
    ultimately show ?thesis
      using 2 t by (simp add: utf8_cont_def Let_def)
  next
    case 3
    then have "unat (0xE0 + b2) = 0xE0 + cp div 0x1000"
      unfolding b2_def by (simp add: unat_numeral_plus_byte)
    moreover have "cp div 4096 * 4096 + cp div 64 mod 64 * 64 + cp mod 64 = cp" "cp div 4096 < 16"
      using 3 div_mod_digits [of cp 64 64] by (simp_all add: div_less_iff_less_mult)
    moreover have "utf8_encode cp = [0xE0 + b2, 0x80 + m1, 0x80 + b0]"
      using 3 by (simp add: utf8_encode_def b0_def b2_def m1_def)
    ultimately show ?thesis
      using 3 lim t by (simp add: utf8_cont_def Let_def)
  next
    case 4
    then have "unat (0xF0 + b3) = 0xF0 + cp div 0x40000"
      using lim unfolding b3_def by (simp add: unat_numeral_plus_byte)
    moreover have "cp div 262144 * 262144 + cp div 4096 mod 64 * 4096 + cp div 64 mod 64 * 64
        + cp mod 64 = cp" "cp div 262144 < 8"
      using lim div_mod_digits [of cp 4096 64] mod_mult2_eq [of cp 64 64]
      by (simp_all add: div_less_iff_less_mult)
    moreover have "utf8_encode cp = [0xF0 + b3, 0x80 + m2, 0x80 + m1, 0x80 + b0]"
      using 4 by (simp add: utf8_encode_def b0_def b3_def m1_def m2_def)
    ultimately show ?thesis
      using 4 lim t by (simp add: utf8_cont_def Let_def)
  qed
qed

lemma utf8_decode_concat:
  "list_all valid_scalar cps \<Longrightarrow> utf8_decode (concat (map utf8_encode cps)) = Some cps"
  by (induction cps) (simp_all add: utf8_decode_encode)

subsection \<open>UTF-16\<close>

lemma unat_code_unit_less: "unat (c :: code_unit) < 65536"
proof -
  have "unat c < 2 ^ LENGTH(16)" by (rule unsigned_less)
  then show ?thesis by simp
qed

lemma valid_scalar_unat:
  "\<not> is_high_surrogate c \<Longrightarrow> \<not> is_low_surrogate c \<Longrightarrow> valid_scalar (unat c)"
  using unat_code_unit_less [of c]
  by (auto simp: valid_scalar_def is_high_surrogate_def is_low_surrogate_def word_le_nat_alt)

lemma valid_scalar_pair:
  "is_high_surrogate c \<Longrightarrow> is_low_surrogate d
   \<Longrightarrow> valid_scalar (0x10000 + (unat c - 0xD800) * 0x400 + (unat d - 0xDC00))"
  unfolding is_high_surrogate_def is_low_surrogate_def word_le_nat_alt
  by (auto simp: valid_scalar_def)

lemma valid_scalar_FFFD: "valid_scalar 0xFFFD"
  by (simp add: valid_scalar_def)

theorem utf16_scalars_valid: "list_all valid_scalar (utf16_scalars s)"
  by (induction s rule: utf16_scalars.induct)
    (simp_all add: valid_scalar_unat valid_scalar_pair valid_scalar_FFFD split: list.split)

lemma utf16_encode_cp_unat: "utf16_encode_cp (unat c) = [c]"
  using unat_code_unit_less [of c] by (simp add: utf16_encode_cp_def)

lemma utf16_encode_cp_FFFD: "utf16_encode_cp 0xFFFD = [0xFFFD]"
  by (simp add: utf16_encode_cp_def)

lemma utf16_encode_cp_pair:
  assumes "is_high_surrogate c" "is_low_surrogate d"
  shows "utf16_encode_cp (0x10000 + (unat c - 0xD800) * 0x400 + (unat d - 0xDC00)) = [c, d]"
proof -
  define h l where "h = unat c - 0xD800" and "l = unat d - 0xDC00"
  have r: "0xD800 \<le> unat c" "unat c \<le> 0xDBFF" "0xDC00 \<le> unat d" "unat d \<le> 0xDFFF"
    using assms by (simp_all add: is_high_surrogate_def is_low_surrogate_def word_le_nat_alt)
  then have "l < 0x400" by (simp add: l_def)
  then have "(h * 0x400 + l) div 0x400 = h" "(h * 0x400 + l) mod 0x400 = l" by simp_all
  then have "utf16_encode_cp (0x10000 + h * 0x400 + l) = [of_nat (0xD800 + h), of_nat (0xDC00 + l)]"
    by (simp add: utf16_encode_cp_def)
  also have "\<dots> = [of_nat (unat c), of_nat (unat d)]" using r by (simp add: h_def l_def)
  finally show ?thesis by (simp add: h_def l_def)
qed

theorem utf16_encode_scalars: "utf16_encode (utf16_scalars s) = to_well_formed s"
  by (induction s rule: utf16_scalars.induct)
    (simp_all add: utf16_encode_def utf16_encode_cp_unat utf16_encode_cp_FFFD utf16_encode_cp_pair
      split: list.split)

lemma utf8_decode_bytes: "utf8_decode (utf8_bytes s) = Some (utf16_scalars s)"
  by (simp add: utf8_bytes_def utf8_decode_concat utf16_scalars_valid)

lemma to_well_formed_id: "well_formed_utf16 s \<Longrightarrow> to_well_formed s = s"
proof (induction s rule: to_well_formed.induct)
  case (2 c cs)
  show ?case
  proof (cases "is_high_surrogate c")
    case True
    with "2.prems" obtain d ds where cs: "cs = d # ds" "is_low_surrogate d" "well_formed_utf16 ds"
      by (cases cs) simp_all
    with True "2.IH"(1) show ?thesis by simp
  next
    case False
    with "2.prems" have "\<not> is_low_surrogate c" "well_formed_utf16 cs" by simp_all
    with False "2.IH"(4) show ?thesis by simp
  qed
qed simp

lemma well_formed_utf16_js: "well_formed_utf16 (js s)"
proof (induction s)
  case (Cons a s)
  have lt: "of_char a < (256::nat)" by (rule nat_of_char_less_256)
  have "unat (of_nat (of_char a) :: code_unit) = of_char a"
    by (rule unat_of_nat_code_unit) (use lt in linarith)
  then have "\<not> is_high_surrogate (of_nat (of_char a))" "\<not> is_low_surrogate (of_nat (of_char a))"
    by (simp_all add: is_high_surrogate_def is_low_surrogate_def word_le_nat_alt)
      (use lt in linarith)+
  with Cons show ?case by (simp add: js_def)
qed (simp add: js_def)

lemma to_well_formed_js [simp]: "to_well_formed (js s) = js s"
  by (rule to_well_formed_id [OF well_formed_utf16_js])

lemma well_formed_utf16_append:
  "well_formed_utf16 xs \<Longrightarrow> well_formed_utf16 (xs @ ys) = well_formed_utf16 ys"
proof (induction xs rule: well_formed_utf16.induct)
  case (2 c cs)
  show ?case
  proof (cases "is_high_surrogate c")
    case True
    with "2.prems" obtain d ds where "cs = d # ds" "is_low_surrogate d" "well_formed_utf16 ds"
      by (cases cs) simp_all
    with True "2.IH"(1) show ?thesis by simp
  next
    case False
    with "2.prems" "2.IH"(2) show ?thesis by simp
  qed
qed simp

lemma well_formed_utf16_plain:
  "\<forall>c\<in>set xs. \<not> is_high_surrogate c \<and> \<not> is_low_surrogate c \<Longrightarrow> well_formed_utf16 xs"
  by (induction xs) simp_all

lemma well_formed_utf16_join_with:
  "well_formed_utf16 sep \<Longrightarrow> \<forall>x\<in>set xs. well_formed_utf16 x \<Longrightarrow> well_formed_utf16 (join_with sep xs)"
  by (induction sep xs rule: join_with.induct) (simp_all add: well_formed_utf16_append)

lemma length_utf8_encode_le: "length (utf8_encode cp) \<le> 4"
  and length_utf8_encode_bmp: "cp < 0x10000 \<Longrightarrow> length (utf8_encode cp) \<le> 3"
  by (simp_all add: utf8_encode_def)



lemma length_utf8_bytes_step:
  "utf16_scalars s = n # utf16_scalars t \<Longrightarrow> length (utf8_bytes s) = length (utf8_encode n) + length (utf8_bytes t)"
  by (simp add: utf8_bytes_def)

lemma length_utf8_bytes: "length (utf8_bytes s) \<le> 3 * length s"
proof (induction s rule: utf16_scalars.induct)
  case 1
  then show ?case by (simp add: utf8_bytes_def)
next
  case (2 c cs)
  have fffd: "length (utf8_encode 0xFFFD) \<le> 3" by (rule length_utf8_encode_bmp) simp
  show ?case
  proof (cases "is_high_surrogate c")
    case hi: True
    show ?thesis
    proof (cases cs)
      case Nil
      with hi fffd show ?thesis by (simp add: utf8_bytes_def)
    next
      case (Cons d ds)
      show ?thesis
      proof (cases "is_low_surrogate d")
        case True
        with hi Cons have "length (utf8_bytes (c # cs)) =
            length (utf8_encode (0x10000 + (unat c - 0xD800) * 0x400 + (unat d - 0xDC00))) + length (utf8_bytes ds)"
          by (intro length_utf8_bytes_step) simp
        with hi Cons True "2.IH"(1)
          length_utf8_encode_le [of "0x10000 + (unat c - 0xD800) * 0x400 + (unat d - 0xDC00)"]
        show ?thesis by simp
      next
        case False
        with hi Cons have "length (utf8_bytes (c # cs)) = length (utf8_encode 0xFFFD) + length (utf8_bytes cs)"
          by (intro length_utf8_bytes_step) simp
        with hi Cons False "2.IH"(2) fffd show ?thesis by simp
      qed
    qed
  next
    case nh: False
    show ?thesis
    proof (cases "is_low_surrogate c")
      case True
      with nh have "length (utf8_bytes (c # cs)) = length (utf8_encode 0xFFFD) + length (utf8_bytes cs)"
        by (intro length_utf8_bytes_step) simp
      with nh True "2.IH"(3) fffd show ?thesis by simp
    next
      case False
      with nh have "length (utf8_bytes (c # cs)) = length (utf8_encode (unat c)) + length (utf8_bytes cs)"
        by (intro length_utf8_bytes_step) simp
      moreover have "length (utf8_encode (unat c)) \<le> 3"
        by (rule length_utf8_encode_bmp) (rule unat_code_unit_less)
      ultimately show ?thesis using nh False "2.IH"(4) by simp
    qed
  qed
qed

text \<open>
  C22: sending a JS string as UTF-8 and reading the bytes back as UTF-16 gives its
  \<open>toWellFormed\<close>: every code unit is kept except the lone surrogates, each of which
  arrives as U+FFFD.
\<close>

theorem utf8_transport: "map_option utf16_encode (utf8_decode (utf8_bytes s)) = Some (to_well_formed s)"
  by (simp add: utf8_decode_bytes utf16_encode_scalars)

end
