(* ===== verification/UrlParams.thy ===== *)
theory UrlParams
  imports Unicode
begin

text \<open>
  The outbound URL of the \<open>/passage\<close> handler (\<^verbatim>\<open>src/server.js\<close>, lines 49--59):
  \<open>new URLSearchParams({q, ...}).toString()\<close> appended to the fixed endpoint.
  \<open>URLSearchParams\<close> keeps the record's entries in insertion order and serialises
  them with the WHATWG \<open>application/x-www-form-urlencoded\<close> serializer: each name
  and value is converted to a scalar-value string (a lone surrogate becomes U+FFFD,
  \<open>utf16_scalars\<close>), encoded as UTF-8 (\<open>utf8_encode\<close>), and each byte is kept
  when it is an ASCII alphanumeric or one of \<open>* - . _\<close>, written \<open>+\<close> when it is
  the space, and percent-encoded with upper-case hex digits otherwise
  (\<open>form_encode_byte\<close>); pairs are written \<open>name=value\<close> and joined by \<open>&\<close>.
  The theory proves the shape of the query string, the round trip through the
  WHATWG urlencoded parser, and the length of the URL.
\<close>

definition form_unreserved :: "8 word \<Rightarrow> bool" where
  "form_unreserved b \<longleftrightarrow>
     (0x30 \<le> b \<and> b \<le> 0x39) \<or> (0x41 \<le> b \<and> b \<le> 0x5A) \<or> (0x61 \<le> b \<and> b \<le> 0x7A)
     \<or> b \<in> {0x2A, 0x2D, 0x2E, 0x5F}"

definition hex_digit :: "nat \<Rightarrow> code_unit" where
  "hex_digit n = (if n < 10 then 0x30 + of_nat n else 0x41 + of_nat (n - 10))"

definition form_encode_byte :: "8 word \<Rightarrow> jsstr" where
  "form_encode_byte b =
     (if b = 0x20 then [0x2B]
      else if form_unreserved b then [ucast b]
      else [0x25, hex_digit (unat b div 16), hex_digit (unat b mod 16)])"

definition form_encode :: "jsstr \<Rightarrow> jsstr" where
  "form_encode s = concat (map form_encode_byte (utf8_bytes s))"

definition form_serialize :: "(jsstr \<times> jsstr) list \<Rightarrow> jsstr" where
  "form_serialize ps = join_with [0x26] (map (\<lambda>(n, v). form_encode n @ [0x3D] @ form_encode v) ps)"

definition esv_params :: "jsstr \<Rightarrow> (jsstr \<times> jsstr) list" where
  "esv_params q =
     [(js ''q'', q),
      (js ''include-passage-references'', js ''true''),
      (js ''include-verse-numbers'', js ''true''),
      (js ''include-first-verse-numbers'', js ''true''),
      (js ''include-headings'', js ''true''),
      (js ''include-footnotes'', js ''false''),
      (js ''include-short-copyright'', js ''true'')]"

definition esv_endpoint :: jsstr where
  "esv_endpoint = js ''https://api.esv.org/v3/passage/text/?''"

definition esv_url :: "jsstr \<Rightarrow> jsstr" where
  "esv_url q = esv_endpoint @ form_serialize (esv_params q)"

subsection \<open>The receiving side\<close>

text \<open>
  How a server reads the query string back, after the WHATWG
  \<open>application/x-www-form-urlencoded\<close> parser: \<open>split_on\<close> cuts it at each
  \<open>&\<close> and empty fields are skipped; a field is cut at its first \<open>=\<close> into name
  and value (\<open>form_field\<close>); each part is percent-decoded by \<open>form_decode\<close>
  (\<open>+\<close> for space, \<open>%XY\<close> for a byte, any other ASCII code unit for itself) and
  the bytes are read as UTF-8 (\<open>form_value\<close>). The decoders here are strict and
  fail where the WHATWG ones substitute; they agree on everything the serializer
  writes. These are the specification the serializer is checked against, not code
  of the repository.
\<close>

fun split_on :: "code_unit \<Rightarrow> jsstr \<Rightarrow> jsstr list" where
  "split_on d [] = [[]]"
| "split_on d (c # cs) =
     (if c = d then [] # split_on d cs
      else (case split_on d cs of [] \<Rightarrow> [[c]] | w # ws \<Rightarrow> (c # w) # ws))"

definition hex_value :: "code_unit \<Rightarrow> nat option" where
  "hex_value c =
     (let n = unat c in
      if 48 \<le> n \<and> n \<le> 57 then Some (n - 48)
      else if 65 \<le> n \<and> n \<le> 70 then Some (n - 55)
      else if 97 \<le> n \<and> n \<le> 102 then Some (n - 87) else None)"

fun form_decode :: "jsstr \<Rightarrow> 8 word list option" where
  "form_decode [] = Some []"
| "form_decode (c # cs) =
     (if c = 0x2B then map_option (Cons 0x20) (form_decode cs)
      else if c = 0x25 then
        (case cs of
           h # l # rest \<Rightarrow>
             (case (hex_value h, hex_value l) of
                (Some a, Some b) \<Rightarrow> map_option (Cons (of_nat (16 * a + b))) (form_decode rest)
              | _ \<Rightarrow> None)
         | _ \<Rightarrow> None)
      else if unat c < 128 then map_option (Cons (ucast c)) (form_decode cs)
      else None)"

definition form_value :: "jsstr \<Rightarrow> jsstr option" where
  "form_value s = map_option utf16_encode (Option.bind (form_decode s) utf8_decode)"

definition form_field :: "jsstr \<Rightarrow> (jsstr \<times> jsstr) option" where
  "form_field f =
     (case (form_value (takeWhile (\<lambda>c. c \<noteq> 0x3D) f),
            form_value (drop 1 (dropWhile (\<lambda>c. c \<noteq> 0x3D) f))) of
        (Some n, Some v) \<Rightarrow> Some (n, v)
      | _ \<Rightarrow> None)"

definition form_parse :: "jsstr \<Rightarrow> (jsstr \<times> jsstr) list option" where
  "form_parse s = those (map form_field (filter (\<lambda>f. f \<noteq> []) (split_on 0x26 s)))"

declare form_unreserved_def [js_eval] hex_digit_def [js_eval]
  form_encode_byte_def [js_eval] form_encode_def [js_eval]
  form_serialize_def [js_eval] esv_params_def [js_eval] esv_endpoint_def [js_eval]
  esv_url_def [js_eval]

subsection \<open>Encoding facts\<close>

lemma unat_hex_digit:
  "n < 16 \<Longrightarrow> unat (hex_digit n) = (if n < 10 then 48 + n else 55 + n)"
proof (cases "n < 10")
  case True
  then have "unat (0x30 + of_nat n :: code_unit) = 0x30 + n"
    by (intro unat_numeral_plus) simp
  with True show ?thesis by (simp add: hex_digit_def)
next
  case False
  assume "n < 16"
  with False have "unat (0x41 + of_nat (n - 10) :: code_unit) = 65 + (n - 10)"
    by (intro unat_numeral_plus) simp
  with False show ?thesis by (simp add: hex_digit_def)
qed

lemma hex_value_hex_digit: "n < 16 \<Longrightarrow> hex_value (hex_digit n) = Some n"
  by (simp add: hex_value_def unat_hex_digit)

lemma form_unreserved_unat:
  "form_unreserved b \<longleftrightarrow>
     (48 \<le> unat b \<and> unat b \<le> 57) \<or> (65 \<le> unat b \<and> unat b \<le> 90) \<or> (97 \<le> unat b \<and> unat b \<le> 122)
     \<or> unat b \<in> {42, 45, 46, 95}"
  by (simp add: form_unreserved_def word_le_nat_alt word_unat_eq_iff)

lemma form_decode_encode_byte:
  "form_decode (form_encode_byte b @ rest) = map_option (Cons b) (form_decode rest)"
proof -
  have lt: "unat b < 256" by (rule unat_byte_less)
  consider "b = 0x20" | "b \<noteq> 0x20" "form_unreserved b" | "b \<noteq> 0x20" "\<not> form_unreserved b"
    by blast
  then show ?thesis
  proof cases
    case 1
    then show ?thesis by (simp add: form_encode_byte_def)
  next
    case 2
    then have u: "unat b \<noteq> 43 \<and> unat b \<noteq> 37 \<and> unat b < 128"
      by (auto simp: form_unreserved_unat)
    then have "ucast b \<noteq> (0x2B :: code_unit)" "ucast b \<noteq> (0x25 :: code_unit)"
      by (simp_all add: code_unit_eq_numeral_iff unat_ucast_byte)
    with 2 u show ?thesis
      by (simp add: form_encode_byte_def unat_ucast_byte ucast_ucast_byte)
  next
    case 3
    have hi: "hex_value (hex_digit (unat b div 16)) = Some (unat b div 16)"
      using lt by (intro hex_value_hex_digit) simp
    have lo: "hex_value (hex_digit (unat b mod 16)) = Some (unat b mod 16)"
      by (intro hex_value_hex_digit) simp
    have "(of_nat (16 * (unat b div 16) + unat b mod 16) :: 8 word) = b"
      by simp
    with 3 hi lo show ?thesis by (simp add: form_encode_byte_def)
  qed
qed

lemma form_decode_encode_bytes:
  "form_decode (concat (map form_encode_byte bs)) = Some bs"
  by (induction bs) (simp_all add: form_decode_encode_byte)

text \<open>
  C26: percent-decoding the encoded query returns exactly the UTF-8 bytes of the
  normalised reference: the upstream receives the reference the handler computed.
\<close>

theorem form_encode_roundtrip: "form_decode (form_encode s) = Some (utf8_bytes s)"
  by (simp add: form_encode_def form_decode_encode_bytes)

lemma form_encode_byte_safe:
  "c \<in> set (form_encode_byte b) \<Longrightarrow> unat c \<notin> {35, 38, 61}"
proof -
  assume c: "c \<in> set (form_encode_byte b)"
  have "\<And>k. k < 16 \<Longrightarrow> unat (hex_digit k) \<notin> {35, 38, 61}"
    by (simp add: unat_hex_digit)
  moreover have "unat b div 16 < 16" using unat_byte_less [of b] by simp
  ultimately show ?thesis using c
    by (auto simp: form_encode_byte_def form_unreserved_unat unat_ucast_byte split: if_splits)
qed

lemma amp_notin_form_encode: "0x26 \<notin> set (form_encode s)"
proof
  assume "0x26 \<in> set (form_encode s)"
  then obtain b where "(0x26 :: code_unit) \<in> set (form_encode_byte b)"
    by (auto simp: form_encode_def)
  from form_encode_byte_safe [OF this] show False by simp
qed

lemma eq_notin_form_encode: "0x3D \<notin> set (form_encode s)"
proof
  assume "0x3D \<in> set (form_encode s)"
  then obtain b where "(0x3D :: code_unit) \<in> set (form_encode_byte b)"
    by (auto simp: form_encode_def)
  from form_encode_byte_safe [OF this] show False by simp
qed

lemma split_on_append_delim:
  "d \<notin> set x \<Longrightarrow> split_on d (x @ d # y) = x # split_on d y"
  by (induction x) auto

lemma split_on_no_delim: "d \<notin> set x \<Longrightarrow> split_on d x = [x]"
  by (induction x) auto

lemma split_on_join_with:
  "xs \<noteq> [] \<Longrightarrow> \<forall>x\<in>set xs. d \<notin> set x \<Longrightarrow> split_on d (join_with [d] xs) = xs"
proof (induction xs)
  case Nil
  then show ?case by simp
next
  case (Cons x xs)
  then show ?case
    by (cases "xs = []") (simp_all add: join_with_Cons split_on_no_delim split_on_append_delim)
qed

lemma form_encode_fixed:
  "form_encode (js ''q'') = js ''q''"
  "form_encode (js ''include-passage-references'') = js ''include-passage-references''"
  "form_encode (js ''include-verse-numbers'') = js ''include-verse-numbers''"
  "form_encode (js ''include-first-verse-numbers'') = js ''include-first-verse-numbers''"
  "form_encode (js ''include-headings'') = js ''include-headings''"
  "form_encode (js ''include-footnotes'') = js ''include-footnotes''"
  "form_encode (js ''include-short-copyright'') = js ''include-short-copyright''"
  "form_encode (js ''true'') = js ''true''"
  "form_encode (js ''false'') = js ''false''"
  by (simp_all add: js_eval)

text \<open>
  C24: whatever the caller's reference, the query string of the outbound URL has
  exactly seven \<open>&\<close>-separated fields: \<open>q\<close> first and the six fixed flags after it,
  so the reference can neither add a parameter nor override a flag.
\<close>

theorem esv_query_fields:
  "split_on 0x26 (form_serialize (esv_params q)) =
     [js ''q='' @ form_encode q, js ''include-passage-references=true'',
      js ''include-verse-numbers=true'', js ''include-first-verse-numbers=true'',
      js ''include-headings=true'', js ''include-footnotes=false'',
      js ''include-short-copyright=true'']"
proof -
  note fixed = form_encode_fixed
  have "split_on 0x26 (form_serialize (esv_params q)) =
      map (\<lambda>(n, v). form_encode n @ [0x3D] @ form_encode v) (esv_params q)"
    unfolding form_serialize_def
    by (rule split_on_join_with) (auto simp: esv_params_def amp_notin_form_encode)
  also have "\<dots> =
      [js ''q'' @ [0x3D] @ form_encode q, js ''include-passage-references'' @ [0x3D] @ js ''true'',
       js ''include-verse-numbers'' @ [0x3D] @ js ''true'',
       js ''include-first-verse-numbers'' @ [0x3D] @ js ''true'',
       js ''include-headings'' @ [0x3D] @ js ''true'',
       js ''include-footnotes'' @ [0x3D] @ js ''false'',
       js ''include-short-copyright'' @ [0x3D] @ js ''true'']"
    by (simp add: esv_params_def fixed del: js_append)
  finally show ?thesis by (simp add: js_def)
qed

lemma form_value_encode: "form_value (form_encode s) = Some (to_well_formed s)"
  by (simp add: form_value_def form_encode_def form_decode_encode_bytes utf8_decode_bytes
      utf16_encode_scalars)

lemma form_field_pair:
  "form_field (form_encode n @ 0x3D # form_encode v) = Some (to_well_formed n, to_well_formed v)"
proof -
  have "\<And>x. x \<in> set (form_encode n) \<Longrightarrow> x \<noteq> 0x3D" using eq_notin_form_encode by blast
  then have "takeWhile (\<lambda>c. c \<noteq> 0x3D) (form_encode n @ 0x3D # form_encode v) = form_encode n"
    and "dropWhile (\<lambda>c. c \<noteq> 0x3D) (form_encode n @ 0x3D # form_encode v) = 0x3D # form_encode v"
    by (simp_all add: takeWhile_append2 dropWhile_append2)
  then show ?thesis by (simp add: form_field_def form_value_encode)
qed

lemma form_fields_serialize:
  "filter (\<lambda>f. f \<noteq> []) (split_on 0x26 (form_serialize ps)) =
     map (\<lambda>(n, v). form_encode n @ 0x3D # form_encode v) ps"
proof (cases "ps = []")
  case True
  then show ?thesis by (simp add: form_serialize_def)
next
  case False
  then have "split_on 0x26 (form_serialize ps) = map (\<lambda>(n, v). form_encode n @ [0x3D] @ form_encode v) ps"
    unfolding form_serialize_def
    by (intro split_on_join_with) (auto simp: amp_notin_form_encode)
  then show ?thesis by (auto simp: filter_id_conv)
qed

lemma form_parse_pairs:
  "those (map form_field (map (\<lambda>(n, v). form_encode n @ 0x3D # form_encode v) ps)) =
     Some (map (\<lambda>(n, v). (to_well_formed n, to_well_formed v)) ps)"
  by (induction ps) (auto simp: form_field_pair)

text \<open>
  C21: the WHATWG urlencoded parser inverts \<open>URLSearchParams\<close> serialisation: any
  list of pairs comes back in order, each name and value as its \<open>toWellFormed\<close>.
\<close>

theorem form_parse_serialize:
  "form_parse (form_serialize ps) = Some (map (\<lambda>(n, v). (to_well_formed n, to_well_formed v)) ps)"
  unfolding form_parse_def form_fields_serialize by (rule form_parse_pairs)

text \<open>
  C20: the upstream API, parsing the query string of the outbound URL, receives
  exactly seven parameters: \<open>q\<close> with the normalised reference (each lone surrogate
  replaced by U+FFFD) and the six fixed flags, in order.
\<close>

theorem esv_params_received:
  "form_parse (form_serialize (esv_params q)) =
     Some [(js ''q'', to_well_formed q), (js ''include-passage-references'', js ''true''),
      (js ''include-verse-numbers'', js ''true''), (js ''include-first-verse-numbers'', js ''true''),
      (js ''include-headings'', js ''true''), (js ''include-footnotes'', js ''false''),
      (js ''include-short-copyright'', js ''true'')]"
  unfolding form_parse_def form_fields_serialize form_parse_pairs by (simp add: esv_params_def)

subsection \<open>The length of the outbound URL\<close>

lemma length_form_encode_byte: "length (form_encode_byte b) \<le> 3"
  by (simp add: form_encode_byte_def)

lemma length_form_encode: "length (form_encode s) \<le> 9 * length s"
proof -
  have "length (form_encode s) \<le> 3 * length (utf8_bytes s)"
    unfolding form_encode_def by (rule length_concat_map_le) (rule length_form_encode_byte)
  with length_utf8_bytes [of s] show ?thesis by linarith
qed

lemma length_esv_url: "length (esv_url q) = 206 + length (form_encode q)"
  by (simp add: esv_url_def esv_endpoint_def form_serialize_def esv_params_def form_encode_fixed)

lemma utf16_scalars_replicate:
  "\<not> is_high_surrogate c \<Longrightarrow> \<not> is_low_surrogate c \<Longrightarrow> utf16_scalars (replicate n c) = replicate n (unat c)"
  by (induction n) simp_all

lemma length_concat_map_replicate:
  "length (concat (map f (concat (replicate n xs)))) = n * length (concat (map f xs))"
  by (induction n) simp_all

lemma length_form_encode_cjk: "length (form_encode (replicate n 0x4E2D)) = 9 * n"
proof -
  have "\<not> is_high_surrogate (0x4E2D :: code_unit)" "\<not> is_low_surrogate (0x4E2D :: code_unit)"
    by (simp_all add: is_high_surrogate_def is_low_surrogate_def)
  then have "utf8_bytes (replicate n 0x4E2D) = concat (replicate n (utf8_encode 0x4E2D))"
    by (simp add: utf8_bytes_def utf16_scalars_replicate map_replicate)
  moreover have "length (concat (map form_encode_byte (utf8_encode 0x4E2D))) = 9"
    by (simp add: js_eval)
  ultimately show ?thesis by (simp add: form_encode_def length_concat_map_replicate)
qed

text \<open>
  C25: the outbound URL is 206 fixed code units followed by the encoded
  reference, and the encoding takes at most nine code units for each code unit of
  the reference: a character of the Basic Multilingual Plane beyond ASCII is three
  percent-escaped bytes. The bound is reached for every length, by a reference of
  CJK ideographs. Nothing in the code bounds the length of the reference itself.
\<close>

theorem esv_url_length:
  "length (esv_url q) \<le> 206 + 9 * length q \<and> length (esv_url (replicate n 0x4E2D)) = 206 + 9 * n"
  using length_form_encode [of q] by (simp add: length_esv_url length_form_encode_cjk)

end
