(* ===== verification/Server.thy ===== *)
theory Server
  imports Normalize Fetcher UrlParams
begin

text \<open>
  The Express application of \<^verbatim>\<open>src/server.js\<close>: the CORS middleware (lines 6--12),
  the start-up check of the credential and the port (lines 15--19 and 69--72), the
  \<open>/healthz\<close> route (line 42) and the \<open>/passage\<close> route (lines 44--67).
  \<^item> A request is its method, its path and the parsed value of \<open>req.query.q\<close>.
    A response is a status, the headers the program sets and a body; the headers
    Express adds itself (\<open>Content-Type\<close>, \<open>ETag\<close>, \<open>X-Powered-By\<close>) are not modelled.
  \<^item> \<open>cors_middleware\<close> runs first for every request: it sets the three CORS headers on
    the response and either ends an \<open>OPTIONS\<close> request with 204 (\<open>Some\<close>) or passes
    it on (\<open>None\<close>, \<open>next()\<close>). Every later response carries the headers.
  \<^item> \<open>router\<close> tries the routes in registration order. \<open>app.get\<close> also serves
    \<open>HEAD\<close>, and Express matches a route path case-insensitively, with an optional
    trailing slash (\<open>route_matches\<close>); an unmatched request gets Express's 404 page.
  \<^item> \<open>passage_handler\<close> is the body of the \<open>try\<close> block: normalise the query, answer
    400 when it is empty, otherwise await \<open>esvGet\<close> on the URL of \<open>UrlParams\<close> and
    build the reply (\<open>passage_reply\<close>). \<open>passages_text\<close> is
    \<open>(payload.passages || []).join("\n").trim()\<close>, whose two \<open>TypeError\<close>s are
    values here; the \<open>catch\<close> block is \<open>catch_message\<close>, \<open>String(e.message || e)\<close>.
\<close>

datatype http_method = GET | HEAD | POST | PUT | PATCH | DELETE | OPTIONS | OtherMethod jsstr

record http_request =
  req_method :: http_method
  req_path :: jsstr
  req_q :: qval

datatype body =
    BodyEmpty
  | BodyText jsstr
  | BodyJson json
  | BodyNotFound http_method jsstr

record response =
  res_status :: nat
  res_headers :: "(jsstr \<times> jsstr) list"
  res_body :: body

subsection \<open>CORS middleware\<close>

definition cors_headers :: "(jsstr \<times> jsstr) list" where
  "cors_headers =
     [(js ''Access-Control-Allow-Origin'', js ''*''),
      (js ''Access-Control-Allow-Methods'', js ''GET,OPTIONS''),
      (js ''Access-Control-Allow-Headers'', js ''Content-Type,Authorization'')]"

definition with_cors :: "nat \<times> body \<Rightarrow> response" where
  "with_cors r = \<lparr>res_status = fst r, res_headers = cors_headers, res_body = snd r\<rparr>"

definition cors_middleware :: "http_request \<Rightarrow> response option" where
  "cors_middleware req = (if req_method req = OPTIONS then Some (with_cors (204, BodyEmpty)) else None)"

subsection \<open>The /passage handler\<close>

definition error_json :: "jsstr \<Rightarrow> json" where
  "error_json msg = JObj [(js ''error'', JStr msg)]"

definition catch_message :: "js_error \<Rightarrow> jsstr" where
  "catch_message e = (if err_message e \<noteq> [] then err_message e else error_to_string e)"

definition passages_text :: "json \<Rightarrow> js_error + jsstr" where
  "passages_text payload =
     (if payload = JNull
      then Inl (new_TypeError (js ''Cannot read properties of null (reading 'passages')''))
      else
        (case get_field payload (js ''passages'') of
           None \<Rightarrow> map_sum id js_trim (array_join [0x0A] [])
         | Some v \<Rightarrow>
             if \<not> json_truthy v then map_sum id js_trim (array_join [0x0A] [])
             else (case v of
                     JArr vs \<Rightarrow> map_sum id js_trim (array_join [0x0A] vs)
                   | _ \<Rightarrow> Inl (new_TypeError (js ''(payload.passages || []).join is not a function'')))))"

definition passage_reply :: "jsstr \<Rightarrow> js_error + json \<Rightarrow> nat \<times> body" where
  "passage_reply q r =
     (case r of
        Inl e \<Rightarrow> (500, BodyJson (error_json (catch_message e)))
      | Inr payload \<Rightarrow>
          (case passages_text payload of
             Inl e \<Rightarrow> (500, BodyJson (error_json (catch_message e)))
           | Inr text \<Rightarrow> (200, BodyJson (JObj [(js ''query'', JStr q), (js ''text'', JStr text)]))))"

definition missing_query_reply :: "nat \<times> body" where
  "missing_query_reply = (400, BodyJson (error_json (js ''Missing query param q'')))"

definition passage_handler :: "jsstr \<Rightarrow> qval \<Rightarrow> (nat \<times> body) prog" where
  "passage_handler key qv =
     (let q = normalize_reference qv in
      if q = [] then Ret missing_query_reply
      else bind_prog (esv_get key (esv_url q)) (\<lambda>r. Ret (passage_reply q r)))"

subsection \<open>Routing and the application\<close>

definition healthz_reply :: "nat \<times> body" where
  "healthz_reply = (200, BodyText (js ''ok''))"

definition ascii_lower :: "code_unit \<Rightarrow> code_unit" where
  "ascii_lower c = (if 0x41 \<le> c \<and> c \<le> 0x5A then c + 0x20 else c)"

definition route_matches :: "jsstr \<Rightarrow> jsstr \<Rightarrow> bool" where
  "route_matches route p \<longleftrightarrow> map ascii_lower p = route \<or> map ascii_lower p = route @ [0x2F]"

definition is_get :: "http_method \<Rightarrow> bool" where
  "is_get m \<longleftrightarrow> m = GET \<or> m = HEAD"

definition router :: "jsstr \<Rightarrow> http_request \<Rightarrow> (nat \<times> body) prog" where
  "router key req =
     (if is_get (req_method req) \<and> route_matches (js ''/healthz'') (req_path req) then Ret healthz_reply
      else if is_get (req_method req) \<and> route_matches (js ''/passage'') (req_path req)
        then passage_handler key (req_q req)
      else Ret (404, BodyNotFound (req_method req) (req_path req)))"

definition app_handle :: "jsstr \<Rightarrow> http_request \<Rightarrow> response prog" where
  "app_handle key req =
     (case cors_middleware req of
        Some r \<Rightarrow> Ret r
      | None \<Rightarrow> bind_prog (router key req) (\<lambda>r. Ret (with_cors r)))"

subsection \<open>Start-up\<close>

text \<open>
  \<open>process.env\<close> is a map from names to strings. Without a truthy \<open>ESV_API_KEY\<close> the
  process exits with status 1 before \<open>app.listen\<close>; otherwise it listens on
  \<open>process.env.PORT || 3000\<close> with the key fixed for its lifetime.
\<close>

type_synonym environment = "jsstr \<Rightarrow> jsstr option"

datatype listen_port = PortFromEnv jsstr | PortDefault nat

record config =
  api_key :: jsstr
  listen_on :: listen_port

datatype startup = StartupExit nat | Listening config

definition startup :: "environment \<Rightarrow> startup" where
  "startup env =
     (case env (js ''ESV_API_KEY'') of
        None \<Rightarrow> StartupExit 1
      | Some k \<Rightarrow>
          if k = [] then StartupExit 1
          else Listening
            \<lparr>api_key = k,
             listen_on = (case env (js ''PORT'') of
                            Some p \<Rightarrow> if p \<noteq> [] then PortFromEnv p else PortDefault 3000
                          | None \<Rightarrow> PortDefault 3000)\<rparr>)"

definition serve :: "environment \<Rightarrow> http_request \<Rightarrow> response prog option" where
  "serve env req =
     (case startup env of StartupExit n \<Rightarrow> None | Listening cfg \<Rightarrow> Some (app_handle (api_key cfg) req))"

declare cors_headers_def [js_eval] with_cors_def [js_eval] cors_middleware_def [js_eval]
  error_json_def [js_eval] catch_message_def [js_eval] passages_text_def [js_eval]
  passage_reply_def [js_eval] missing_query_reply_def [js_eval] passage_handler_def [js_eval]
  healthz_reply_def [js_eval] ascii_lower_def [js_eval] route_matches_def [js_eval]
  is_get_def [js_eval] router_def [js_eval] app_handle_def [js_eval] startup_def [js_eval]
  serve_def [js_eval]


subsection \<open>Facts about the handlers\<close>

lemma passage_handler_blank:
  "normalize_reference qv = [] \<Longrightarrow> passage_handler key qv = Ret missing_query_reply"
  by (simp add: passage_handler_def)

lemma run_passage_handler:
  "normalize_reference qv = q \<Longrightarrow> q \<noteq> [] \<Longrightarrow>
     run_prog u (passage_handler key qv) =
       ([esv_request key (esv_url q)], passage_reply q (esv_get_result (u (esv_request key (esv_url q)))))"
  by (simp add: passage_handler_def esv_get_def Let_def)

lemma catch_message_ne: "err_name e \<noteq> [] \<Longrightarrow> catch_message e \<noteq> []"
  by (simp add: catch_message_def error_to_string_ne)

lemma catch_message_new_Error:
  "catch_message (new_Error m) = (if m \<noteq> [] then m else js ''Error'')"
  by (simp add: catch_message_def new_Error_def error_to_string_def)

lemma is_get_not_OPTIONS: "is_get m \<Longrightarrow> m \<noteq> OPTIONS"
  by (auto simp: is_get_def)

lemma app_handle_routes:
  "req_method req \<noteq> OPTIONS \<Longrightarrow>
     app_handle key req = bind_prog (router key req) (\<lambda>r. Ret (with_cors r))"
  by (simp add: app_handle_def cors_middleware_def)

lemma run_app_handle:
  "run_prog u (app_handle key req) =
     (if req_method req = OPTIONS then ([], with_cors (204, BodyEmpty))
      else (fst (run_prog u (router key req)), with_cors (snd (run_prog u (router key req)))))"
  by (simp add: app_handle_def cors_middleware_def run_prog_bind)

lemma passage_handler_calls: "length (fst (run_prog u (passage_handler key qv))) \<le> 1"
  by (cases "normalize_reference qv = []") (simp_all add: passage_handler_blank run_passage_handler)

subsection \<open>Properties of the /passage route\<close>

text \<open>
  C1: a query that normalises to the empty string is answered 400 with the error
  \<open>Missing query param q\<close>, and no outbound request is made.
\<close>

theorem passage_blank_no_call:
  "normalize_reference qv = [] \<Longrightarrow>
     run_prog u (passage_handler key qv) =
       ([], (400, BodyJson (error_json (js ''Missing query param q''))))"
  by (simp add: passage_handler_blank missing_query_reply_def)

lemma passage_blank_no_call_witness:
  "run_prog (\<lambda>r. FetchRejected (new_TypeError (js ''fetch failed'')))
      (passage_handler (js ''key'') (QString (js ''   '')))
   = ([], (400, BodyJson (error_json (js ''Missing query param q''))))"
  by (rule passage_blank_no_call) (simp add: js_eval del: esv_url_def)

text \<open>
  C2: a query that does not normalise to the empty string makes exactly one outbound
  request, a single attempt with no retry: to the URL built from the normalised
  query, carrying the credential in the header \<open>Authorization: Token <key>\<close>.
\<close>

theorem passage_one_call:
  "normalize_reference qv \<noteq> [] \<Longrightarrow>
     fst (run_prog u (passage_handler key qv)) = [esv_request key (esv_url (normalize_reference qv))]"
  by (simp add: run_passage_handler)

lemma passage_one_call_witness:
  "fst (run_prog (\<lambda>r. FetchRejected (new_TypeError (js ''fetch failed'')))
      (passage_handler (js ''key'') (QString (js ''John 3:16''))))
   = [\<lparr>req_url = esv_url (js ''John 3:16''),
       req_headers = [(js ''Authorization'', js ''Token key'')]\<rparr>]"
  using passage_one_call [of "QString (js ''John 3:16'')"] by (simp add: js_eval del: esv_url_def)

lemma catch_message_to_primitive_error:
  "catch_message to_primitive_error = js ''Cannot convert object to primitive value''"
  by (simp add: catch_message_def to_primitive_error_def new_TypeError_def)

lemma catch_message_new_Error_of:
  "catch_message (new_Error_of x) =
     (case string_of_json x of
        Inr m \<Rightarrow> if m \<noteq> [] then m else js ''Error''
      | Inl e \<Rightarrow> js ''Cannot convert object to primitive value'')"
  by (auto simp: new_Error_of_def catch_message_new_Error catch_message_to_primitive_error
      dest: string_of_json_error split: sum.splits)

text \<open>
  C3: when the upstream answers a 2xx status with a JSON object whose \<open>passages\<close>
  member is an array, the reply is 200 with the normalised query and the array's
  entries, each converted by \<open>ToString\<close>, joined by newlines and trimmed; when
  that conversion throws (an entry is an object with its own \<open>toString\<close>
  member, possibly inside a nested array), the reply is 500 with V8's
  \<open>TypeError\<close> text.
\<close>

theorem passage_success:
  assumes "normalize_reference qv = q" and "q \<noteq> []"
    and "u (esv_request key (esv_url q)) = FetchResponse st (Some (JObj kvs))"
    and "response_ok st" and "map_of (rev kvs) (js ''passages'') = Some (JArr ps)"
  shows "snd (run_prog u (passage_handler key qv)) =
     (case array_join [0x0A] ps of
        Inr t \<Rightarrow> (200, BodyJson (JObj [(js ''query'', JStr q), (js ''text'', JStr (js_trim t))]))
      | Inl e \<Rightarrow> (500, BodyJson (error_json (js ''Cannot convert object to primitive value''))))"
  using assms
  by (auto simp: run_passage_handler esv_get_result_def parsed_or_empty_def passage_reply_def
      passages_text_def json_truthy_def catch_message_to_primitive_error
      dest: array_join_error split: sum.splits)

lemma passage_success_witness:
  "snd (run_prog
      (\<lambda>r. FetchResponse 200
         (Some (JObj [(js ''passages'', JArr [JStr (js ''John 3:16 ... [1]\<newline>'')])])))
      (passage_handler (js ''key'') (QString (js ''John 3:16''))))
   = (200, BodyJson (JObj [(js ''query'', JStr (js ''John 3:16'')),
                           (js ''text'', JStr (js ''John 3:16 ... [1]''))]))
   \<and> snd (run_prog
      (\<lambda>r. FetchResponse 200
         (Some (JObj [(js ''passages'', JArr [JArr [JObj [(js ''toString'', JNum (js ''1''))]]])])))
      (passage_handler (js ''key'') (QString (js ''John 3:16''))))
   = (500, BodyJson (error_json (js ''Cannot convert object to primitive value'')))"
  using passage_success [of "QString (js ''John 3:16'')" "js ''John 3:16''"
      "\<lambda>r. FetchResponse 200
         (Some (JObj [(js ''passages'', JArr [JStr (js ''John 3:16 ... [1]\<newline>'')])]))"
      "js ''key''" 200 "[(js ''passages'', JArr [JStr (js ''John 3:16 ... [1]\<newline>'')])]"]
    passage_success [of "QString (js ''John 3:16'')" "js ''John 3:16''"
      "\<lambda>r. FetchResponse 200
         (Some (JObj [(js ''passages'', JArr [JArr [JObj [(js ''toString'', JNum (js ''1''))]]])]))"
      "js ''key''" 200 "[(js ''passages'', JArr [JArr [JObj [(js ''toString'', JNum (js ''1''))]]])]"]
  by (simp add: js_eval del: esv_url_def)

text \<open>
  C4: when the upstream answers a status outside 200..299, the reply is 500 and its
  error text is the upstream's \<open>detail\<close> when that is truthy (rendered by
  \<open>ToString\<close>; \<open>Error\<close> when it renders empty; V8's \<open>TypeError\<close> text when the
  rendering throws), and \<open>HTTP <status>\<close> otherwise, an unparsable body counting
  as \<open>{}\<close>.
\<close>

theorem passage_upstream_error:
  assumes "normalize_reference qv = q" and "q \<noteq> []"
    and "u (esv_request key (esv_url q)) = FetchResponse st body" and "\<not> response_ok st"
  shows "snd (run_prog u (passage_handler key qv)) =
     (500, BodyJson (error_json
        (case get_field (parsed_or_empty body) (js ''detail'') of
           Some d \<Rightarrow>
             if json_truthy d then
               (case string_of_json d of
                  Inr m \<Rightarrow> if m \<noteq> [] then m else js ''Error''
                | Inl e \<Rightarrow> js ''Cannot convert object to primitive value'')
             else js ''HTTP '' @ dec_string st
         | None \<Rightarrow> js ''HTTP '' @ dec_string st)))"
  using assms
  by (simp add: run_passage_handler esv_get_result_def passage_reply_def upstream_message_def
      catch_message_new_Error_of split: option.splits)

lemma passage_upstream_error_witness:
  "snd (run_prog (\<lambda>r. FetchResponse 404 (Some (JObj [(js ''detail'', JStr (js ''not found''))])))
      (passage_handler (js ''key'') (QString (js ''Nowhere 9:99''))))
   = (500, BodyJson (error_json (js ''not found'')))
   \<and> snd (run_prog (\<lambda>r. FetchResponse 503 None)
      (passage_handler (js ''key'') (QString (js ''John 3:16''))))
   = (500, BodyJson (error_json (js ''HTTP 503'')))
   \<and> snd (run_prog (\<lambda>r. FetchResponse 404
        (Some (JObj [(js ''detail'', JObj [(js ''toString'', JNum (js ''1''))])])))
      (passage_handler (js ''key'') (QString (js ''Nowhere 9:99''))))
   = (500, BodyJson (error_json (js ''Cannot convert object to primitive value'')))"
  using passage_upstream_error [of "QString (js ''Nowhere 9:99'')" "js ''Nowhere 9:99''"
      "\<lambda>r. FetchResponse 404 (Some (JObj [(js ''detail'', JStr (js ''not found''))]))"
      "js ''key''" 404 "Some (JObj [(js ''detail'', JStr (js ''not found''))])"]
    passage_upstream_error [of "QString (js ''John 3:16'')" "js ''John 3:16''"
      "\<lambda>r. FetchResponse 503 None" "js ''key''" 503 None]
    passage_upstream_error [of "QString (js ''Nowhere 9:99'')" "js ''Nowhere 9:99''"
      "\<lambda>r. FetchResponse 404 (Some (JObj [(js ''detail'', JObj [(js ''toString'', JNum (js ''1''))])]))"
      "js ''key''" 404 "Some (JObj [(js ''detail'', JObj [(js ''toString'', JNum (js ''1''))])])"]
  by (simp add: js_eval del: esv_url_def)

text \<open>
  C5: when the outbound \<open>fetch\<close> itself rejects (the upstream is unreachable), the
  reply is 500 with the text of the rejection.
\<close>

theorem passage_transport_error:
  assumes "normalize_reference qv = q" and "q \<noteq> []"
    and "u (esv_request key (esv_url q)) = FetchRejected e"
  shows "snd (run_prog u (passage_handler key qv)) = (500, BodyJson (error_json (catch_message e)))"
  using assms by (simp add: run_passage_handler esv_get_result_def passage_reply_def)

lemma passage_transport_error_witness:
  "snd (run_prog (\<lambda>r. FetchRejected (new_TypeError (js ''fetch failed'')))
      (passage_handler (js ''key'') (QString (js ''John 3:16''))))
   = (500, BodyJson (error_json (js ''fetch failed'')))"
  using passage_transport_error [of "QString (js ''John 3:16'')" "js ''John 3:16''"
      "(\<lambda>r. FetchRejected (new_TypeError (js ''fetch failed'')))" "js ''key''" "new_TypeError (js ''fetch failed'')"]
  by (simp add: js_eval del: esv_url_def)

text \<open>
  C6: no partial results: when every rejection of \<open>fetch\<close> is a named error, the
  \<open>/passage\<close> reply is either 200 with a non-empty query and a text, or 400 or 500
  with a non-empty error text.
\<close>

theorem passage_reply_shape:
  assumes "\<forall>r e. u r = FetchRejected e \<longrightarrow> err_name e \<noteq> []"
    and "snd (run_prog u (passage_handler key qv)) = (st, b)"
  shows "(st = 200 \<and> (\<exists>q t. q \<noteq> [] \<and> b = BodyJson (JObj [(js ''query'', JStr q), (js ''text'', JStr t)])))
     \<or> ((st = 400 \<or> st = 500) \<and> (\<exists>msg. msg \<noteq> [] \<and> b = BodyJson (error_json msg)))"
proof (cases "normalize_reference qv = []")
  case True
  with assms(2) have "st = 400" and "b = BodyJson (error_json (js ''Missing query param q''))"
    by (simp_all add: passage_handler_blank missing_query_reply_def)
  moreover have "js ''Missing query param q'' \<noteq> []" by simp
  ultimately show ?thesis by blast
next
  case False
  define out where "out = u (esv_request key (esv_url (normalize_reference qv)))"
  have reply: "passage_reply (normalize_reference qv) (esv_get_result out) = (st, b)"
    using assms(2) False by (simp add: run_passage_handler out_def)
  have named: "\<And>e. out = FetchRejected e \<Longrightarrow> err_name e \<noteq> []"
    using assms(1) by (simp add: out_def)
  have "\<And>e. esv_get_result out = Inl e \<Longrightarrow> err_name e \<noteq> []"
    using named by (auto simp: esv_get_result_def new_Error_of_name Let_def split: fetch_outcome.splits if_splits)
  moreover have "\<And>p e. passages_text p = Inl e \<Longrightarrow> err_name e \<noteq> []"
    by (auto simp: passages_text_def new_TypeError_def to_primitive_error_def dest: array_join_error
        split: if_splits option.splits json.splits)
  ultimately show ?thesis
    using reply False catch_message_ne
    by (auto simp: passage_reply_def split: sum.splits)
qed

lemma passage_reply_shape_witness:
  "\<exists>msg. msg \<noteq> [] \<and> snd (run_prog (\<lambda>r. FetchRejected (new_TypeError (js ''fetch failed'')))
      (passage_handler (js ''key'') (QString (js ''John 3:16''))))
     = (500, BodyJson (error_json msg))"
proof -
  let ?u = "(\<lambda>r. FetchRejected (new_TypeError (js ''fetch failed'')))"
  have r: "snd (run_prog ?u (passage_handler (js ''key'') (QString (js ''John 3:16''))))
      = (500, BodyJson (error_json (js ''fetch failed'')))"
    by (simp add: js_eval Let_def del: esv_url_def)
  have "\<forall>r e. ?u r = FetchRejected e \<longrightarrow> err_name e \<noteq> []"
    by (simp add: new_TypeError_def)
  from passage_reply_shape [OF this r] show ?thesis using r by auto
qed

subsection \<open>Properties of the application\<close>

text \<open>
  C28: \<open>GET /healthz\<close> (and \<open>HEAD\<close>, any letter case, optional trailing slash) is
  answered 200 \<open>ok\<close> with no outbound request, whatever the upstream does.
\<close>

theorem app_healthz_ok:
  "is_get (req_method req) \<Longrightarrow> route_matches (js ''/healthz'') (req_path req) \<Longrightarrow>
     run_prog u (app_handle key req) = ([], with_cors (200, BodyText (js ''ok'')))"
  by (simp add: app_handle_routes is_get_not_OPTIONS router_def healthz_reply_def)

lemma app_healthz_ok_witness:
  "run_prog (\<lambda>r. FetchRejected (new_TypeError (js ''fetch failed'')))
      (app_handle (js ''key'') \<lparr>req_method = HEAD, req_path = js ''/HealthZ/'', req_q = QUndefined\<rparr>)
   = ([], with_cors (200, BodyText (js ''ok'')))"
  by (rule app_healthz_ok) (simp_all add: js_eval del: esv_url_def)

text \<open>
  C29: every \<open>OPTIONS\<close> request, to any path, is answered 204 with an empty body and
  the CORS headers, before any route runs.
\<close>

theorem app_options_preflight:
  "req_method req = OPTIONS \<Longrightarrow> run_prog u (app_handle key req) = ([], with_cors (204, BodyEmpty))"
  by (simp add: app_handle_def cors_middleware_def)

lemma app_options_preflight_witness:
  "run_prog (\<lambda>r. FetchRejected (new_TypeError (js ''fetch failed'')))
      (app_handle (js ''key'') \<lparr>req_method = OPTIONS, req_path = js ''/passage'', req_q = QUndefined\<rparr>)
   = ([], with_cors (204, BodyEmpty))"
  by (rule app_options_preflight) simp

text \<open>
  Handling one request issues at most one outbound request, whatever the
  request and the upstream.
\<close>

theorem app_at_most_one_call: "length (fst (run_prog u (app_handle key req))) \<le> 1"
  using passage_handler_calls [of u key "req_q req"] by (simp add: run_app_handle router_def)


subsection \<open>Malformed upstream payloads\<close>

text \<open>
  C32: an upstream 2xx response whose body is the JSON value \<open>null\<close> is answered 500
  with V8's \<open>TypeError\<close> text: \<open>data?.detail\<close> guards against \<open>null\<close> but
  \<open>payload.passages\<close> does not.
\<close>

theorem passage_null_payload:
  assumes "normalize_reference qv = q" and "q \<noteq> []"
    and "u (esv_request key (esv_url q)) = FetchResponse st (Some JNull)" and "response_ok st"
  shows "snd (run_prog u (passage_handler key qv)) =
     (500, BodyJson (error_json (js ''Cannot read properties of null (reading 'passages')'')))"
  using assms
  by (simp add: run_passage_handler esv_get_result_def parsed_or_empty_def passage_reply_def
      passages_text_def catch_message_def new_TypeError_def)

lemma passage_null_payload_witness:
  "snd (run_prog (\<lambda>r. FetchResponse 200 (Some JNull))
      (passage_handler (js ''key'') (QString (js ''John 3:16''))))
   = (500, BodyJson (error_json (js ''Cannot read properties of null (reading 'passages')'')))"
  using passage_null_payload [of "QString (js ''John 3:16'')" "js ''John 3:16''"
      "\<lambda>r. FetchResponse 200 (Some JNull)" "js ''key''" 200]
  by (simp add: js_eval del: esv_url_def)

text \<open>
  C33: an upstream 2xx object whose \<open>passages\<close> member is truthy but not an array (a
  string, a number, \<open>true\<close>, an object) is answered 500 with the \<open>TypeError\<close> of
  calling \<open>join\<close> on it.
\<close>

theorem passage_non_array_passages:
  assumes "normalize_reference qv = q" and "q \<noteq> []"
    and "u (esv_request key (esv_url q)) = FetchResponse st (Some (JObj kvs))" and "response_ok st"
    and "map_of (rev kvs) (js ''passages'') = Some v" and "json_truthy v" and "\<forall>vs. v \<noteq> JArr vs"
  shows "snd (run_prog u (passage_handler key qv)) =
     (500, BodyJson (error_json (js ''(payload.passages || []).join is not a function'')))"
  using assms
  by (cases v) (simp_all add: run_passage_handler esv_get_result_def parsed_or_empty_def
      passage_reply_def passages_text_def catch_message_def new_TypeError_def)

lemma passage_non_array_passages_witness:
  "snd (run_prog (\<lambda>r. FetchResponse 200 (Some (JObj [(js ''passages'', JStr (js ''In the beginning''))])))
      (passage_handler (js ''key'') (QString (js ''Gen 1:1''))))
   = (500, BodyJson (error_json (js ''(payload.passages || []).join is not a function'')))"
  using passage_non_array_passages [of "QString (js ''Gen 1:1'')" "js ''Gen 1:1''"
      "\<lambda>r. FetchResponse 200 (Some (JObj [(js ''passages'', JStr (js ''In the beginning''))]))"
      "js ''key''" 200 "[(js ''passages'', JStr (js ''In the beginning''))]"
      "JStr (js ''In the beginning'')"]
  by (simp add: js_eval del: esv_url_def)

text \<open>
  An upstream 2xx response whose body does not parse as JSON is answered 200 with
  the normalised query and an empty text: the parse failure is swallowed.
\<close>

theorem passage_unparsable_body:
  assumes "normalize_reference qv = q" and "q \<noteq> []"
    and "u (esv_request key (esv_url q)) = FetchResponse st None" and "response_ok st"
  shows "snd (run_prog u (passage_handler key qv)) =
     (200, BodyJson (JObj [(js ''query'', JStr q), (js ''text'', JStr [])]))"
  using assms
  by (simp add: run_passage_handler esv_get_result_def parsed_or_empty_def passage_reply_def
      passages_text_def array_join_def js_trim_def trim_start_def trim_end_def)

lemma passage_unparsable_body_witness:
  "snd (run_prog (\<lambda>r. FetchResponse 200 None)
      (passage_handler (js ''key'') (QString (js ''John 3:16''))))
   = (200, BodyJson (JObj [(js ''query'', JStr (js ''John 3:16'')), (js ''text'', JStr [])]))"
  using passage_unparsable_body [of "QString (js ''John 3:16'')" "js ''John 3:16''"
      "\<lambda>r. FetchResponse 200 None" "js ''key''" 200]
  by (simp add: js_eval del: esv_url_def)

subsection \<open>Start-up\<close>

text \<open>
  C34: the process serves requests only when \<open>ESV_API_KEY\<close> is set to a non-empty
  string, and then every request is handled with exactly that credential.
\<close>

theorem serve_requires_key:
  "serve env req =
     (case env (js ''ESV_API_KEY'') of
        None \<Rightarrow> None
      | Some k \<Rightarrow> if k = [] then None else Some (app_handle k req))"
  by (simp add: serve_def startup_def split: option.splits)

end
