(* ===== verification/Wire.thy ===== *)
theory Wire
  imports Server
begin

text \<open>
  What the server of \<^verbatim>\<open>src/server.js\<close> puts on the wire.
  \<^item> \<open>res.json(obj)\<close> (lines 47, 63, 65) sends \<open>JSON.stringify(obj)\<close>
    (\<open>json_stringify\<close>) with \<open>Content-Type: application/json; charset=utf-8\<close>.
  \<^item> \<open>res.send("ok")\<close> (line 42) sends its string as \<open>text/html\<close>.
  \<^item> \<open>res.sendStatus(204)\<close> (line 10) sends no body, because a 204 response has none.
  \<^item> Express encodes the text as UTF-8 (\<open>utf8_bytes\<close>) and sends no body in
    answer to \<open>HEAD\<close> (\<open>wire_body\<close>).
  \<open>JSON.stringify\<close> of a string is \<open>QuoteJSONString\<close> (ES2019 and later),
  \<open>json_quote\<close>. It escapes the quote, the backslash and the control characters
  below U+0020: \<open>\b \t \n \f \r\<close> by name, the rest as \<open>\u00XX\<close> in lower-case
  hex. It also escapes every lone surrogate as \<open>\uDXXX\<close>, and keeps a surrogate
  pair as it is. An object is written with its members in order, which is the
  property order of the objects the handlers build, whose keys are distinct and
  not array indices.

  \<open>response_wf\<close> states what a well-typed response of this application is.

  The client side, \<open>res.json()\<close> in a JavaScript client, is the same reader as
  the one \<open>esvGet\<close> applies to the upstream body: the theory \<open>JsonParse\<close>.
\<close>

subsection \<open>JSON.stringify\<close>

definition hex_lower :: "nat \<Rightarrow> code_unit" where
  "hex_lower n = (if n < 10 then 0x30 + of_nat n else 0x61 + of_nat (n - 10))"

definition unicode_escape :: "code_unit \<Rightarrow> jsstr" where
  "unicode_escape c =
     [0x5C, 0x75, hex_lower (unat c div 0x1000), hex_lower (unat c div 0x100 mod 0x10),
      hex_lower (unat c div 0x10 mod 0x10), hex_lower (unat c mod 0x10)]"

definition json_escape_unit :: "code_unit \<Rightarrow> jsstr" where
  "json_escape_unit c =
     (if c = 0x08 then [0x5C, 0x62]
      else if c = 0x09 then [0x5C, 0x74]
      else if c = 0x0A then [0x5C, 0x6E]
      else if c = 0x0C then [0x5C, 0x66]
      else if c = 0x0D then [0x5C, 0x72]
      else if c = 0x22 then [0x5C, 0x22]
      else if c = 0x5C then [0x5C, 0x5C]
      else if c < 0x20 then unicode_escape c
      else [c])"

fun json_quote_units :: "jsstr \<Rightarrow> jsstr" where
  "json_quote_units [] = []"
| "json_quote_units (c # cs) =
     (if is_high_surrogate c then
        (case cs of
           [] \<Rightarrow> unicode_escape c
         | d # ds \<Rightarrow>
             if is_low_surrogate d then c # d # json_quote_units ds
             else unicode_escape c @ json_quote_units cs)
      else if is_low_surrogate c then unicode_escape c @ json_quote_units cs
      else json_escape_unit c @ json_quote_units cs)"

definition json_quote :: "jsstr \<Rightarrow> jsstr" where
  "json_quote s = 0x22 # json_quote_units s @ [0x22]"

fun json_stringify :: "json \<Rightarrow> jsstr" where
  "json_stringify JNull = js ''null''"
| "json_stringify (JBool b) = (if b then js ''true'' else js ''false'')"
| "json_stringify (JNum r) = r"
| "json_stringify (JStr s) = json_quote s"
| "json_stringify (JArr vs) = 0x5B # join_with [0x2C] (map json_stringify vs) @ [0x5D]"
| "json_stringify (JObj kvs) =
     0x7B # join_with [0x2C] (map (\<lambda>(k, v). json_quote k @ 0x3A # json_stringify v) kvs) @ [0x7D]"

subsection \<open>The response on the wire\<close>

definition body_text :: "body \<Rightarrow> jsstr option" where
  "body_text b =
     (case b of
        BodyEmpty \<Rightarrow> Some []
      | BodyText t \<Rightarrow> Some t
      | BodyJson j \<Rightarrow> Some (json_stringify j)
      | BodyNotFound m p \<Rightarrow> None)"

definition content_type :: "body \<Rightarrow> jsstr option" where
  "content_type b =
     (case b of
        BodyEmpty \<Rightarrow> None
      | BodyText t \<Rightarrow> Some (js ''text/html; charset=utf-8'')
      | BodyJson j \<Rightarrow> Some (js ''application/json; charset=utf-8'')
      | BodyNotFound m p \<Rightarrow> Some (js ''text/html; charset=utf-8''))"

definition wire_body :: "http_method \<Rightarrow> response \<Rightarrow> 8 word list option" where
  "wire_body m r =
     (if m = HEAD \<or> res_status r = 204 then Some [] else map_option utf8_bytes (body_text (res_body r)))"

definition string_object :: "(jsstr \<times> jsstr) list \<Rightarrow> json" where
  "string_object kvs = JObj (map (\<lambda>(k, v). (k, JStr v)) kvs)"

definition response_wf :: "response \<Rightarrow> bool" where
  "response_wf r \<longleftrightarrow>
     res_headers r = cors_headers \<and>
     (case res_body r of
        BodyEmpty \<Rightarrow> res_status r = 204
      | BodyText t \<Rightarrow> res_status r = 200
      | BodyJson j \<Rightarrow>
          (res_status r = 200 \<and> (\<exists>q t. q \<noteq> [] \<and> j = string_object [(js ''query'', q), (js ''text'', t)]))
          \<or> ((res_status r = 400 \<or> res_status r = 500) \<and> (\<exists>m. j = string_object [(js ''error'', m)]))
      | BodyNotFound m p \<Rightarrow> res_status r = 404)"

declare hex_lower_def [js_eval] unicode_escape_def [js_eval] json_escape_unit_def [js_eval]
  json_quote_def [js_eval] body_text_def [js_eval] content_type_def [js_eval] wire_body_def [js_eval]
  string_object_def [js_eval] response_wf_def [js_eval]

subsection \<open>The serialised objects\<close>

lemma json_stringify_string_object:
  "json_stringify (string_object kvs) =
     0x7B # join_with [0x2C] (map (\<lambda>(k, v). json_quote k @ 0x3A # json_quote v) kvs) @ [0x7D]"
  by (simp add: string_object_def comp_def split_def)

subsection \<open>The serialised text is well-formed UTF-16\<close>

lemma ascii_not_surrogate: "unat c < 0xD800 \<Longrightarrow> \<not> is_high_surrogate c \<and> \<not> is_low_surrogate c"
  by (simp add: is_high_surrogate_def is_low_surrogate_def word_le_nat_alt)

lemma hex_lower_ascii: "n < 16 \<Longrightarrow> \<not> is_high_surrogate (hex_lower n) \<and> \<not> is_low_surrogate (hex_lower n)"
proof (rule ascii_not_surrogate)
  assume n: "n < 16"
  show "unat (hex_lower n) < 0xD800"
  proof (cases "n < 10")
    case True
    then have "unat (0x30 + of_nat n :: code_unit) = 0x30 + n" by (intro unat_numeral_plus) simp
    with True show ?thesis by (simp add: hex_lower_def)
  next
    case False
    with n have "unat (0x61 + of_nat (n - 10) :: code_unit) = 97 + (n - 10)" by (intro unat_numeral_plus) simp
    with False n show ?thesis by (simp add: hex_lower_def)
  qed
qed

lemma well_formed_unicode_escape: "well_formed_utf16 (unicode_escape c)"
proof -
  have "unat c div 0x1000 < 16" using unat_code_unit_less [of c] by (simp add: div_less_iff_less_mult)
  then show ?thesis by (simp add: unicode_escape_def hex_lower_ascii ascii_not_surrogate)
qed

lemma well_formed_escape_unit:
  "\<not> is_high_surrogate c \<Longrightarrow> \<not> is_low_surrogate c \<Longrightarrow> well_formed_utf16 (json_escape_unit c)"
  by (simp add: json_escape_unit_def well_formed_unicode_escape ascii_not_surrogate)

lemma well_formed_quote_units: "well_formed_utf16 (json_quote_units s)"
  by (induction s rule: json_quote_units.induct)
    (simp_all add: well_formed_utf16_append well_formed_unicode_escape well_formed_escape_unit
      split: list.split)

lemma well_formed_json_quote: "well_formed_utf16 (json_quote s)"
  by (simp add: json_quote_def well_formed_utf16_append well_formed_quote_units ascii_not_surrogate)

lemma well_formed_string_object: "well_formed_utf16 (json_stringify (string_object kvs))"
proof -
  have "well_formed_utf16 (join_with [0x2C] (map (\<lambda>(k, v). json_quote k @ 0x3A # json_quote v) kvs))"
    by (rule well_formed_utf16_join_with)
      (auto simp: well_formed_utf16_append well_formed_json_quote ascii_not_surrogate)
  then show ?thesis
    by (simp add: json_stringify_string_object well_formed_utf16_append ascii_not_surrogate)
qed

subsection \<open>The replies of the application\<close>

lemma passage_reply_wf: "q \<noteq> [] \<Longrightarrow> response_wf (with_cors (passage_reply q r))"
  by (auto simp: passage_reply_def response_wf_def with_cors_def string_object_def error_json_def
      split: sum.splits)

lemma router_replies:
  "snd (run_prog u (router key req)) = healthz_reply
   \<or> snd (run_prog u (router key req)) = missing_query_reply
   \<or> snd (run_prog u (router key req)) = (404, BodyNotFound (req_method req) (req_path req))
   \<or> (\<exists>q r. q \<noteq> [] \<and> snd (run_prog u (router key req)) = passage_reply q r)"
proof (cases "is_get (req_method req) \<and> route_matches (js ''/passage'') (req_path req)
    \<and> \<not> route_matches (js ''/healthz'') (req_path req)")
  case True
  then have "router key req = passage_handler key (req_q req)" by (auto simp: router_def)
  then show ?thesis
    by (cases "normalize_reference (req_q req) = []") (auto simp: passage_handler_blank run_passage_handler)
qed (auto simp: router_def)

lemma app_replies:
  "\<exists>r. snd (run_prog u (app_handle key req)) = with_cors r
     \<and> (r = (204, BodyEmpty) \<or> r = healthz_reply \<or> r = missing_query_reply
        \<or> r = (404, BodyNotFound (req_method req) (req_path req)) \<or> (\<exists>q x. q \<noteq> [] \<and> r = passage_reply q x))"
proof (cases "req_method req = OPTIONS")
  case True
  then show ?thesis by (intro exI [of _ "(204, BodyEmpty)"]) (simp add: run_app_handle)
next
  case False
  then show ?thesis
    using router_replies [of u key req]
    by (intro exI [of _ "snd (run_prog u (router key req))"]) (auto simp: run_app_handle)
qed

lemma fixed_replies_wf:
  "response_wf (with_cors (204, BodyEmpty))" "response_wf (with_cors healthz_reply)"
  "response_wf (with_cors missing_query_reply)" "response_wf (with_cors (404, BodyNotFound m p))"
  by (simp_all add: response_wf_def with_cors_def healthz_reply_def missing_query_reply_def
      error_json_def string_object_def)

text \<open>
  C9: every response of the application is well-typed: it carries the CORS
  headers and its status matches its body. That is 204 with no body, 200 with
  the text of \<open>/healthz\<close>, 200 with \<open>{query, text}\<close> and a non-empty query, 400
  or 500 with \<open>{error}\<close>, or 404 with Express's page.
\<close>

theorem app_response_wf: "response_wf (snd (run_prog u (app_handle key req)))"
  using app_replies [of u key req] by (auto simp: fixed_replies_wf passage_reply_wf)

end
