(* ===== verification/JsonParse.thy ===== *)
theory JsonParse
  imports Wire
begin

text \<open>
  The body of the upstream response as \<open>esvGet\<close> reads it:
  \<open>await res.json()\<close> (\<^verbatim>\<open>src/server.js\<close>, line 35). The Fetch standard
  reads the body bytes with \<open>UTF-8 decode\<close> of the Encoding standard, which drops
  a leading byte order mark and replaces each ill-formed subsequence by U+FFFD
  (\<open>utf8_decode_whatwg\<close>), and parses the text with \<open>JSON.parse\<close>
  (\<open>json_parse\<close>). A syntax error rejects the promise. The \<open>.catch\<close> of line 35
  turns the rejection into \<open>{}\<close> (\<open>parsed_or_empty\<close> of the \<open>Fetcher\<close> theory),
  so \<open>res_json\<close> returns \<open>None\<close> for it.
\<close>

subsection \<open>UTF-8 decode\<close>

text \<open>
  The decoder of the Encoding standard, one byte at a time. The state is the
  code point read so far, the number of bytes still needed and the bounds of the
  next continuation byte. A byte outside those bounds ends the sequence with
  U+FFFD and is read again from the initial state.
\<close>

fun utf8_decode_step :: "nat \<Rightarrow> nat \<Rightarrow> nat \<Rightarrow> nat \<Rightarrow> 8 word list \<Rightarrow> nat list" where
  "utf8_decode_step cp need lo hi [] = (if need = 0 then [] else [0xFFFD])"
| "utf8_decode_step cp need lo hi (b # bs) =
     (if need = 0 then
        (if unat b \<le> 0x7F then unat b # utf8_decode_step 0 0 0x80 0xBF bs
         else if 0xC2 \<le> unat b \<and> unat b \<le> 0xDF then utf8_decode_step (unat b mod 0x20) 1 0x80 0xBF bs
         else if 0xE0 \<le> unat b \<and> unat b \<le> 0xEF then
           utf8_decode_step (unat b mod 0x10) 2 (if unat b = 0xE0 then 0xA0 else 0x80)
             (if unat b = 0xED then 0x9F else 0xBF) bs
         else if 0xF0 \<le> unat b \<and> unat b \<le> 0xF4 then
           utf8_decode_step (unat b mod 0x08) 3 (if unat b = 0xF0 then 0x90 else 0x80)
             (if unat b = 0xF4 then 0x8F else 0xBF) bs
         else 0xFFFD # utf8_decode_step 0 0 0x80 0xBF bs)
      else if unat b < lo \<or> hi < unat b then 0xFFFD # utf8_decode_step 0 0 0x80 0xBF (b # bs)
      else if need = 1 then (cp * 0x40 + unat b mod 0x40) # utf8_decode_step 0 0 0x80 0xBF bs
      else utf8_decode_step (cp * 0x40 + unat b mod 0x40) (need - 1) 0x80 0xBF bs)"

definition strip_bom :: "8 word list \<Rightarrow> 8 word list" where
  "strip_bom bs = (if take 3 bs = [0xEF, 0xBB, 0xBF] then drop 3 bs else bs)"

definition utf8_decode_whatwg :: "8 word list \<Rightarrow> nat list" where
  "utf8_decode_whatwg bs = utf8_decode_step 0 0 0x80 0xBF (strip_bom bs)"

subsection \<open>JSON.parse\<close>

text \<open>
  \<open>JSON.parse\<close> (ECMA-262, 25.5.1) reads the grammar of ECMA-404: whitespace is
  tab, line feed, carriage return and space. A number is
  \<open>-? (0 | [1-9][0-9]* ) (. [0-9]+)? ([eE] [+-]? [0-9]+)?\<close>, scanned by
  \<open>scan_number\<close>. The value of a number is an IEEE double, and all the model
  keeps of it is its \<open>Number::toString\<close> rendering (\<open>JNum\<close>). The parser therefore
  takes the rendering of a literal as its parameter \<open>nr\<close>: that conversion
  belongs to the engine's floating point, which the model does not contain.
  Strings are read by \<open>parse_json_chars\<close> of the \<open>Wire\<close> theory. An object keeps
  its members in source order, duplicates included (\<open>get_field\<close> reads the
  last one, as the object \<open>JSON.parse\<close> builds holds the last one).

  The value, array and object parsers are mutually recursive and take fuel.
  Fuel is spent only when a bracket, a brace or a comma is consumed, so the
  length of the text is always enough (\<open>json_value_fuel\<close>).
\<close>

definition simple_escape :: "code_unit \<Rightarrow> code_unit option" where
  "simple_escape e =
     (if e = 0x22 then Some 0x22 else if e = 0x5C then Some 0x5C else if e = 0x2F then Some 0x2F
      else if e = 0x62 then Some 0x08 else if e = 0x66 then Some 0x0C else if e = 0x6E then Some 0x0A
      else if e = 0x72 then Some 0x0D else if e = 0x74 then Some 0x09 else None)"

definition hex4_value :: "code_unit \<Rightarrow> code_unit \<Rightarrow> code_unit \<Rightarrow> code_unit \<Rightarrow> code_unit option" where
  "hex4_value a b c d =
     (case (hex_value a, hex_value b, hex_value c, hex_value d) of
        (Some w, Some x, Some y, Some z) \<Rightarrow> Some (of_nat (0x1000 * w + 0x100 * x + 0x10 * y + z))
      | _ \<Rightarrow> None)"

fun parse_json_chars :: "jsstr \<Rightarrow> (jsstr \<times> jsstr) option" where
  "parse_json_chars [] = None"
| "parse_json_chars (c # cs) =
     (if c = 0x22 then Some ([], cs)
      else if c = 0x5C then
        (case cs of
           [] \<Rightarrow> None
         | e # r \<Rightarrow>
             if e = 0x75 then
               (case r of
                  h1 # h2 # h3 # h4 # r' \<Rightarrow>
                    (case hex4_value h1 h2 h3 h4 of
                       Some u \<Rightarrow> map_option (apfst (Cons u)) (parse_json_chars r')
                     | None \<Rightarrow> None)
                | _ \<Rightarrow> None)
             else
               (case simple_escape e of
                  Some u \<Rightarrow> map_option (apfst (Cons u)) (parse_json_chars r)
                | None \<Rightarrow> None))
      else if c < 0x20 then None
      else map_option (apfst (Cons c)) (parse_json_chars cs))"

definition expect :: "code_unit \<Rightarrow> jsstr \<Rightarrow> jsstr option" where
  "expect c s = (case s of [] \<Rightarrow> None | d # r \<Rightarrow> if d = c then Some r else None)"

definition json_parse_string :: "jsstr \<Rightarrow> (jsstr \<times> jsstr) option" where
  "json_parse_string s = Option.bind (expect 0x22 s) parse_json_chars"

definition is_json_ws :: "code_unit \<Rightarrow> bool" where
  "is_json_ws c \<longleftrightarrow> c = 0x09 \<or> c = 0x0A \<or> c = 0x0D \<or> c = 0x20"

definition skip_ws :: "jsstr \<Rightarrow> jsstr" where
  "skip_ws s = dropWhile is_json_ws s"

definition is_digit :: "code_unit \<Rightarrow> bool" where
  "is_digit c \<longleftrightarrow> 0x30 \<le> c \<and> c \<le> 0x39"

definition scan_digits :: "jsstr \<Rightarrow> (jsstr \<times> jsstr) option" where
  "scan_digits s = (if takeWhile is_digit s = [] then None else Some (takeWhile is_digit s, dropWhile is_digit s))"

definition scan_int :: "jsstr \<Rightarrow> (jsstr \<times> jsstr) option" where
  "scan_int s = (if take 1 s = [0x30] then Some ([0x30], drop 1 s) else scan_digits s)"

definition scan_frac :: "jsstr \<Rightarrow> (jsstr \<times> jsstr) option" where
  "scan_frac s =
     (if take 1 s = [0x2E] then map_option (apfst (Cons 0x2E)) (scan_digits (drop 1 s)) else Some ([], s))"

definition scan_exp :: "jsstr \<Rightarrow> (jsstr \<times> jsstr) option" where
  "scan_exp s =
     (if take 1 s = [0x65] \<or> take 1 s = [0x45] then
        (if take 1 (drop 1 s) = [0x2B] \<or> take 1 (drop 1 s) = [0x2D]
         then map_option (apfst (\<lambda>ds. take 2 s @ ds)) (scan_digits (drop 2 s))
         else map_option (apfst (\<lambda>ds. take 1 s @ ds)) (scan_digits (drop 1 s)))
      else Some ([], s))"

definition scan_number :: "jsstr \<Rightarrow> (jsstr \<times> jsstr) option" where
  "scan_number s =
     (let sg = (if take 1 s = [0x2D] then [0x2D] else []) in
      case scan_int (drop (length sg) s) of
        None \<Rightarrow> None
      | Some (i, r1) \<Rightarrow>
          (case scan_frac r1 of
             None \<Rightarrow> None
           | Some (f, r2) \<Rightarrow>
               (case scan_exp r2 of
                  None \<Rightarrow> None
                | Some (e, r3) \<Rightarrow> Some (sg @ i @ f @ e, r3))))"

definition scan_literal :: "jsstr \<Rightarrow> (json \<times> jsstr) option" where
  "scan_literal s =
     (if take 4 s = js ''true'' then Some (JBool True, drop 4 s)
      else if take 5 s = js ''false'' then Some (JBool False, drop 5 s)
      else if take 4 s = js ''null'' then Some (JNull, drop 4 s)
      else None)"

function json_value :: "(jsstr \<Rightarrow> jsstr) \<Rightarrow> nat \<Rightarrow> jsstr \<Rightarrow> (json \<times> jsstr) option"
  and json_elements :: "(jsstr \<Rightarrow> jsstr) \<Rightarrow> nat \<Rightarrow> jsstr \<Rightarrow> (json list \<times> jsstr) option"
  and json_members :: "(jsstr \<Rightarrow> jsstr) \<Rightarrow> nat \<Rightarrow> jsstr \<Rightarrow> ((jsstr \<times> json) list \<times> jsstr) option"
where
  "json_value nr n s =
     (case skip_ws s of
        [] \<Rightarrow> None
      | c # r \<Rightarrow>
          if c = 0x5B then
            (if n = 0 then None
             else if take 1 (skip_ws r) = [0x5D] then Some (JArr [], drop 1 (skip_ws r))
             else map_option (apfst JArr) (json_elements nr (n - 1) r))
          else if c = 0x7B then
            (if n = 0 then None
             else if take 1 (skip_ws r) = [0x7D] then Some (JObj [], drop 1 (skip_ws r))
             else map_option (apfst JObj) (json_members nr (n - 1) r))
          else if c = 0x22 then map_option (apfst JStr) (parse_json_chars r)
          else if c = 0x2D \<or> is_digit c then map_option (apfst (\<lambda>lit. JNum (nr lit))) (scan_number (c # r))
          else scan_literal (c # r))"
| "json_elements nr n s =
     (case json_value nr n s of
        None \<Rightarrow> None
      | Some (v, r) \<Rightarrow>
          (case skip_ws r of
             [] \<Rightarrow> None
           | c # r' \<Rightarrow>
               if c = 0x2C then (if n = 0 then None else map_option (apfst (Cons v)) (json_elements nr (n - 1) r'))
               else if c = 0x5D then Some ([v], r')
               else None))"
| "json_members nr n s =
     (case json_parse_string (skip_ws s) of
        None \<Rightarrow> None
      | Some (k, r) \<Rightarrow>
          (case expect 0x3A (skip_ws r) of
             None \<Rightarrow> None
           | Some r1 \<Rightarrow>
               (case json_value nr n r1 of
                  None \<Rightarrow> None
                | Some (v, r2) \<Rightarrow>
                    (case skip_ws r2 of
                       [] \<Rightarrow> None
                     | c # r3 \<Rightarrow>
                         if c = 0x2C then
                           (if n = 0 then None else map_option (apfst (Cons (k, v))) (json_members nr (n - 1) r3))
                         else if c = 0x7D then Some ([(k, v)], r3)
                         else None))))"
  by pat_completeness auto
termination
  by (relation "measure (\<lambda>x. case x of Inl (nr, n, s) \<Rightarrow> 2 * n
                                     | Inr (Inl (nr, n, s)) \<Rightarrow> 2 * n + 1
                                     | Inr (Inr (nr, n, s)) \<Rightarrow> 2 * n + 1)") auto

definition json_parse :: "(jsstr \<Rightarrow> jsstr) \<Rightarrow> jsstr \<Rightarrow> json option" where
  "json_parse nr s =
     (case json_value nr (length s) s of
        Some (v, r) \<Rightarrow> if skip_ws r = [] then Some v else None
      | None \<Rightarrow> None)"

definition res_json :: "(jsstr \<Rightarrow> jsstr) \<Rightarrow> 8 word list \<Rightarrow> json option" where
  "res_json nr bs = json_parse nr (utf16_encode (utf8_decode_whatwg bs))"

definition fetch_response :: "(jsstr \<Rightarrow> jsstr) \<Rightarrow> nat \<Rightarrow> 8 word list \<Rightarrow> fetch_outcome" where
  "fetch_response nr st bs = FetchResponse st (res_json nr bs)"

text \<open>
  The values that \<open>JSON.stringify\<close> writes and \<open>JSON.parse\<close> reads back: every
  number is kept as a JSON number literal that the engine renders as itself.
\<close>

fun json_nums_ok :: "(jsstr \<Rightarrow> jsstr) \<Rightarrow> json \<Rightarrow> bool" where
  "json_nums_ok nr (JNum r) \<longleftrightarrow> scan_number r = Some (r, []) \<and> nr r = r"
| "json_nums_ok nr (JArr vs) \<longleftrightarrow> (\<forall>v\<in>set vs. json_nums_ok nr v)"
| "json_nums_ok nr (JObj kvs) \<longleftrightarrow> (\<forall>kv\<in>set kvs. json_nums_ok nr (snd kv))"
| "json_nums_ok nr JNull \<longleftrightarrow> True"
| "json_nums_ok nr (JBool b) \<longleftrightarrow> True"
| "json_nums_ok nr (JStr s) \<longleftrightarrow> True"

declare simple_escape_def [js_eval] hex4_value_def [js_eval] expect_def [js_eval]
  json_parse_string_def [js_eval] is_json_ws_def [js_eval] skip_ws_def [js_eval] is_digit_def [js_eval]
  scan_digits_def [js_eval] scan_int_def [js_eval] scan_frac_def [js_eval] scan_exp_def [js_eval]
  scan_number_def [js_eval] scan_literal_def [js_eval] strip_bom_def [js_eval]
  utf8_decode_whatwg_def [js_eval] json_parse_def [js_eval] res_json_def [js_eval] fetch_response_def [js_eval]
declare json_value.simps [simp del] json_elements.simps [simp del] json_members.simps [simp del]

lemma mod_offset: "(a::nat) mod m = 0 \<Longrightarrow> a \<le> u \<Longrightarrow> u < a + m \<Longrightarrow> u mod m = u - a"
proof -
  assume m: "a mod m = 0" and u: "a \<le> u" "u < a + m"
  have "u mod m = (u - a + a) mod m" using u(1) by simp
  also have "\<dots> = (u - a) mod m" using m mod_add_right_eq [of "u - a" a m] by simp
  also have "\<dots> = u - a" using u by simp
  finally show ?thesis .
qed

lemma utf8_cont_mod: "utf8_cont c \<Longrightarrow> unat c mod 0x40 = unat c - 0x80"
  unfolding utf8_cont_def by (intro mod_offset) simp_all

lemma utf8_decode_step_two:
  assumes "194 \<le> unat b" "unat b \<le> 223" "utf8_cont c"
  shows "utf8_decode_step 0 0 0x80 0xBF (b # c # r) =
           ((unat b - 0xC0) * 0x40 + (unat c - 0x80)) # utf8_decode_step 0 0 0x80 0xBF r"
proof -
  have "unat b mod 0x20 = unat b - 0xC0" using assms by (intro mod_offset) simp_all
  with assms utf8_cont_mod [of c] show ?thesis by (simp add: utf8_cont_def)
qed

lemma utf8_decode_step_three:
  assumes "224 \<le> unat b" "unat b \<le> 239" "utf8_cont c" "utf8_cont d"
    and "unat b = 224 \<Longrightarrow> 160 \<le> unat c" and "unat b = 237 \<Longrightarrow> unat c \<le> 159"
  shows "utf8_decode_step 0 0 0x80 0xBF (b # c # d # r) =
           ((unat b - 0xE0) * 0x1000 + (unat c - 0x80) * 0x40 + (unat d - 0x80))
           # utf8_decode_step 0 0 0x80 0xBF r"
proof -
  have b: "unat b mod 0x10 = unat b - 0xE0" using assms by (intro mod_offset) simp_all
  have lo: "\<not> unat c < (if unat b = 224 then 160 else 128)" and hi: "\<not> (if unat b = 237 then 159 else 191) < unat c"
    using assms by (auto simp: utf8_cont_def)
  have "((unat b - 0xE0) * 0x40 + (unat c - 0x80)) * 0x40 + (unat d - 0x80) =
      (unat b - 0xE0) * 0x1000 + (unat c - 0x80) * 0x40 + (unat d - 0x80)"
    by (simp add: algebra_simps)
  with assms b lo hi utf8_cont_mod [of c] utf8_cont_mod [of d] show ?thesis
    by (simp add: utf8_cont_def del: if_split)
qed

lemma utf8_decode_step_four:
  assumes "240 \<le> unat b" "unat b \<le> 244" "utf8_cont c" "utf8_cont d" "utf8_cont e"
    and "unat b = 240 \<Longrightarrow> 144 \<le> unat c" and "unat b = 244 \<Longrightarrow> unat c \<le> 143"
  shows "utf8_decode_step 0 0 0x80 0xBF (b # c # d # e # r) =
           ((unat b - 0xF0) * 0x40000 + (unat c - 0x80) * 0x1000 + (unat d - 0x80) * 0x40 + (unat e - 0x80))
           # utf8_decode_step 0 0 0x80 0xBF r"
proof -
  have b: "unat b mod 0x08 = unat b - 0xF0" using assms by (intro mod_offset) simp_all
  have lo: "\<not> unat c < (if unat b = 240 then 144 else 128)" and hi: "\<not> (if unat b = 244 then 143 else 191) < unat c"
    using assms by (auto simp: utf8_cont_def)
  have "(((unat b - 0xF0) * 0x40 + (unat c - 0x80)) * 0x40 + (unat d - 0x80)) * 0x40 + (unat e - 0x80) =
      (unat b - 0xF0) * 0x40000 + (unat c - 0x80) * 0x1000 + (unat d - 0x80) * 0x40 + (unat e - 0x80)"
    by (simp add: algebra_simps)
  with assms b lo hi utf8_cont_mod [of c] utf8_cont_mod [of d] utf8_cont_mod [of e] show ?thesis
    by (simp add: utf8_cont_def del: if_split)
qed

lemma utf8_decode_step_valid:
  "utf8_decode bs = Some cps \<Longrightarrow> utf8_decode_step 0 0 0x80 0xBF bs = cps"
proof (induction bs arbitrary: cps rule: utf8_decode.induct)
  case 1
  then show ?case by simp
next
  case (2 b bs)
  consider (one) "unat b < 0x80" | (two) "\<not> unat b < 0x80" "unat b < 0xE0"
    | (three) "\<not> unat b < 0x80" "\<not> unat b < 0xE0" "unat b < 0xF0"
    | (four) "\<not> unat b < 0x80" "\<not> unat b < 0xE0" "\<not> unat b < 0xF0" "unat b < 0xF8"
    | (bad) "\<not> unat b < 0xF8" by linarith
  then show ?case
  proof cases
    case one
    with 2 show ?thesis by auto
  next
    case two
    with "2.prems" obtain c r cps' where bs: "bs = c # r"
      and conj: "0xC0 \<le> unat b \<and> utf8_cont c \<and> 0x80 \<le> (unat b - 0xC0) * 0x40 + (unat c - 0x80)"
      and r: "utf8_decode r = Some cps'" and cps: "cps = ((unat b - 0xC0) * 0x40 + (unat c - 0x80)) # cps'"
      by (auto simp: Let_def split: list.splits if_splits)
    have "194 \<le> unat b" using conj by (auto simp: utf8_cont_def)
    with two conj have "utf8_decode_step 0 0 0x80 0xBF (b # c # r) =
        ((unat b - 0xC0) * 0x40 + (unat c - 0x80)) # utf8_decode_step 0 0 0x80 0xBF r"
      by (intro utf8_decode_step_two) simp_all
    with "2.IH"(2) [OF two bs refl conj r] bs cps show ?thesis by simp
  next
    case three
    with "2.prems" obtain c d r cps' where bs: "bs = c # d # r"
      and conj: "utf8_cont c \<and> utf8_cont d \<and> 0x800 \<le> (unat b - 0xE0) * 0x1000 + (unat c - 0x80) * 0x40 + (unat d - 0x80)
        \<and> ((unat b - 0xE0) * 0x1000 + (unat c - 0x80) * 0x40 + (unat d - 0x80) < 0xD800
           \<or> 0xDFFF < (unat b - 0xE0) * 0x1000 + (unat c - 0x80) * 0x40 + (unat d - 0x80))"
      and r: "utf8_decode r = Some cps'"
      and cps: "cps = ((unat b - 0xE0) * 0x1000 + (unat c - 0x80) * 0x40 + (unat d - 0x80)) # cps'"
      by (auto simp: Let_def split: list.splits if_splits)
    have "unat b = 224 \<Longrightarrow> 160 \<le> unat c" "unat b = 237 \<Longrightarrow> unat c \<le> 159"
      using conj by (auto simp: utf8_cont_def)
    with three conj have "utf8_decode_step 0 0 0x80 0xBF (b # c # d # r) =
        ((unat b - 0xE0) * 0x1000 + (unat c - 0x80) * 0x40 + (unat d - 0x80)) # utf8_decode_step 0 0 0x80 0xBF r"
      by (intro utf8_decode_step_three) simp_all
    with "2.IH"(3) [OF three(1,2,3) bs refl refl conj r] bs cps show ?thesis by simp
  next
    case four
    with "2.prems" obtain c d e r cps' where bs: "bs = c # d # e # r"
      and conj: "utf8_cont c \<and> utf8_cont d \<and> utf8_cont e
        \<and> 0x10000 \<le> (unat b - 0xF0) * 0x40000 + (unat c - 0x80) * 0x1000 + (unat d - 0x80) * 0x40 + (unat e - 0x80)
        \<and> (unat b - 0xF0) * 0x40000 + (unat c - 0x80) * 0x1000 + (unat d - 0x80) * 0x40 + (unat e - 0x80) < 0x110000"
      and r: "utf8_decode r = Some cps'"
      and cps: "cps = ((unat b - 0xF0) * 0x40000 + (unat c - 0x80) * 0x1000 + (unat d - 0x80) * 0x40 + (unat e - 0x80)) # cps'"
      by (auto simp: Let_def split: list.splits if_splits)
    have "unat b \<le> 244" "unat b = 240 \<Longrightarrow> 144 \<le> unat c" "unat b = 244 \<Longrightarrow> unat c \<le> 143"
      using conj four by (auto simp: utf8_cont_def)
    with four conj have "utf8_decode_step 0 0 0x80 0xBF (b # c # d # e # r) =
        ((unat b - 0xF0) * 0x40000 + (unat c - 0x80) * 0x1000 + (unat d - 0x80) * 0x40 + (unat e - 0x80))
        # utf8_decode_step 0 0 0x80 0xBF r"
      by (intro utf8_decode_step_four) simp_all
    with "2.IH"(4) [OF four bs refl refl refl conj r] bs cps show ?thesis by simp
  next
    case bad
    with "2.prems" show ?thesis by simp
  qed
qed

lemma json_elements_step:
  "json_value nr n s = Some (v, r1) \<Longrightarrow>
   json_elements nr n s =
     (case skip_ws r1 of
        [] \<Rightarrow> None
      | c # r' \<Rightarrow>
          if c = 0x2C then (if n = 0 then None else map_option (apfst (Cons v)) (json_elements nr (n - 1) r'))
          else if c = 0x5D then Some ([v], r')
          else None)"
  by (subst json_elements.simps) simp

lemma json_members_step:
  "json_parse_string (skip_ws s) = Some (k, r0) \<Longrightarrow> expect 0x3A (skip_ws r0) = Some r1 \<Longrightarrow>
   json_value nr n r1 = Some (v, r2) \<Longrightarrow>
   json_members nr n s =
     (case skip_ws r2 of
        [] \<Rightarrow> None
      | c # r3 \<Rightarrow>
          if c = 0x2C then (if n = 0 then None else map_option (apfst (Cons (k, v))) (json_members nr (n - 1) r3))
          else if c = 0x7D then Some ([(k, v)], r3)
          else None)"
  by (subst json_members.simps) simp

subsection \<open>JSON strings\<close>

lemma hex_value_hex_lower: "n < 16 \<Longrightarrow> hex_value (hex_lower n) = Some n"
proof (cases "n < 10")
  case True
  then have "unat (0x30 + of_nat n :: code_unit) = 0x30 + n"
    by (intro unat_numeral_plus) simp
  with True show ?thesis by (simp add: hex_lower_def hex_value_def)
next
  case False
  assume "n < 16"
  with False have "unat (0x61 + of_nat (n - 10) :: code_unit) = 97 + (n - 10)"
    by (intro unat_numeral_plus) simp
  with False \<open>n < 16\<close> show ?thesis by (simp add: hex_lower_def hex_value_def)
qed

lemma hex4_value_escape:
  "hex4_value (hex_lower (unat c div 0x1000)) (hex_lower (unat c div 0x100 mod 0x10))
     (hex_lower (unat c div 0x10 mod 0x10)) (hex_lower (unat c mod 0x10)) = Some c"
proof -
  define u where "u = unat c"
  have "u < 65536" unfolding u_def by (rule unat_code_unit_less)
  then have "u div 0x1000 < 16" by (simp add: div_less_iff_less_mult)
  moreover have "0x1000 * (u div 0x1000) + 0x100 * (u div 0x100 mod 0x10) + 0x10 * (u div 0x10 mod 0x10)
      + u mod 0x10 = u"
    using div_mod_digits [of u 256 16] mod_mult2_eq [of u 16 16] by simp
  moreover have "(of_nat u :: code_unit) = c" by (simp add: u_def)
  ultimately show ?thesis by (simp add: hex4_value_def hex_value_hex_lower flip: u_def)
qed

lemma parse_unicode_escape:
  "parse_json_chars (unicode_escape c @ rest) = map_option (apfst (Cons c)) (parse_json_chars rest)"
  by (simp add: unicode_escape_def hex4_value_escape)

lemma parse_escape_unit:
  "parse_json_chars (json_escape_unit c @ rest) = map_option (apfst (Cons c)) (parse_json_chars rest)"
  by (simp add: json_escape_unit_def simple_escape_def parse_unicode_escape)

lemma surrogate_not_ascii:
  "is_high_surrogate c \<or> is_low_surrogate c \<Longrightarrow> c \<noteq> 0x22 \<and> c \<noteq> 0x5C \<and> \<not> c < 0x20"
  by (auto simp: is_high_surrogate_def is_low_surrogate_def word_le_nat_alt word_less_nat_alt)

lemma parse_surrogate:
  "is_high_surrogate c \<or> is_low_surrogate c \<Longrightarrow>
     parse_json_chars (c # rest) = map_option (apfst (Cons c)) (parse_json_chars rest)"
  using surrogate_not_ascii [of c] by simp

lemma parse_quote_units: "parse_json_chars (json_quote_units s @ 0x22 # rest) = Some (s, rest)"
proof (induction s rule: json_quote_units.induct)
  case (2 c cs)
  show ?case
  proof (cases "is_high_surrogate c")
    case True
    show ?thesis
    proof (cases cs)
      case Nil
      with True show ?thesis by (simp add: parse_unicode_escape)
    next
      case (Cons d ds)
      with True 2 show ?thesis
        by (cases "is_low_surrogate d")
          (simp_all add: parse_unicode_escape parse_surrogate del: parse_json_chars.simps)
    qed
  next
    case False
    with 2 show ?thesis
      by (cases "is_low_surrogate c")
        (simp_all add: parse_unicode_escape parse_escape_unit del: parse_json_chars.simps)
  qed
qed simp

lemma json_parse_string_quote: "json_parse_string (json_quote s @ rest) = Some (s, rest)"
  by (simp add: json_parse_string_def json_quote_def expect_def parse_quote_units)

subsection \<open>Every parser consumes its input\<close>

lemma length_skip_ws: "length (skip_ws s) \<le> length s"
  by (simp add: skip_ws_def length_dropWhile_le)

lemma parse_json_chars_shorter: "parse_json_chars s = Some (t, r) \<Longrightarrow> length r < length s"
proof (induction s arbitrary: t rule: parse_json_chars.induct)
  case 1
  then show ?case by simp
next
  case (2 c cs)
  show ?case
  proof (cases "c = 0x22")
    case True
    with "2.prems" show ?thesis by simp
  next
    case n22: False
    show ?thesis
    proof (cases "c = 0x5C")
      case esc: True
      with "2.prems" n22 obtain e r0 where cs: "cs = e # r0" by (cases cs) simp_all
      show ?thesis
      proof (cases "e = 0x75")
        case True
        with "2.prems" n22 esc cs obtain h1 h2 h3 h4 r' u t' where r0: "r0 = h1 # h2 # h3 # h4 # r'"
          and h: "hex4_value h1 h2 h3 h4 = Some u" and p: "parse_json_chars r' = Some (t', r)"
          by (auto split: list.splits option.splits)
        have "length r < length r'" by (rule "2.IH"(1) [OF n22 esc cs True r0 refl refl refl h p])
        with cs r0 show ?thesis by simp
      next
        case False
        with "2.prems" n22 esc cs obtain u t' where h: "simple_escape e = Some u"
          and p: "parse_json_chars r0 = Some (t', r)"
          by (auto split: option.splits)
        have "length r < length r0" by (rule "2.IH"(2) [OF n22 esc cs False h p])
        with cs show ?thesis by simp
      qed
    next
      case nesc: False
      with "2.prems" n22 obtain t' where lt: "\<not> c < 0x20" and p: "parse_json_chars cs = Some (t', r)"
        by (auto split: if_splits)
      have "length r < length cs" by (rule "2.IH"(3) [OF n22 nesc lt p])
      then show ?thesis by simp
    qed
  qed
qed

lemma json_parse_string_shorter: "json_parse_string s = Some (t, r) \<Longrightarrow> length r < length s"
  by (auto simp: json_parse_string_def expect_def split: list.splits if_splits dest!: parse_json_chars_shorter)

lemma scan_digits_shorter: "scan_digits s = Some (t, r) \<Longrightarrow> length r < length s"
proof -
  assume a: "scan_digits s = Some (t, r)"
  then have "takeWhile is_digit s \<noteq> []" "r = dropWhile is_digit s" by (simp_all add: scan_digits_def split: if_splits)
  moreover have "length (takeWhile is_digit s) + length (dropWhile is_digit s) = length s"
    by (metis length_append takeWhile_dropWhile_id)
  ultimately show ?thesis by (cases "takeWhile is_digit s") simp_all
qed

lemma scan_int_shorter: "scan_int s = Some (t, r) \<Longrightarrow> length r < length s"
  by (cases s) (auto simp: scan_int_def dest: scan_digits_shorter split: if_splits)

lemma scan_frac_shorter: "scan_frac s = Some (t, r) \<Longrightarrow> length r \<le> length s"
  by (auto simp: scan_frac_def dest!: scan_digits_shorter split: if_splits)

lemma scan_exp_shorter: "scan_exp s = Some (t, r) \<Longrightarrow> length r \<le> length s"
  by (auto simp: scan_exp_def dest!: scan_digits_shorter split: if_splits)

lemma scan_number_shorter: "scan_number s = Some (t, r) \<Longrightarrow> length r < length s"
proof -
  assume a: "scan_number s = Some (t, r)"
  define sg where "sg = (if take 1 s = [0x2D] then [0x2D :: code_unit] else [])"
  from a obtain i r1 f r2 e where i: "scan_int (drop (length sg) s) = Some (i, r1)"
    and f: "scan_frac r1 = Some (f, r2)" and e: "scan_exp r2 = Some (e, r)"
    by (auto simp: scan_number_def Let_def sg_def split: option.splits)
  from scan_int_shorter [OF i] scan_frac_shorter [OF f] scan_exp_shorter [OF e]
  show ?thesis by simp
qed

lemma scan_literal_shorter: "scan_literal s = Some (v, r) \<Longrightarrow> length r < length s"
  by (auto simp: scan_literal_def js_def split: if_splits dest!: arg_cong [where f = length])

lemma json_rest_shorter:
  "json_value nr n s = Some (v, r) \<Longrightarrow> length r < length s"
  "json_elements nr n s = Some (vs, r) \<Longrightarrow> length r < length s"
  "json_members nr n s = Some (kvs, r) \<Longrightarrow> length r < length s"
proof (induction nr n s and nr n s and nr n s arbitrary: v r and vs r and kvs r
    rule: json_value_json_elements_json_members.induct)
  case (1 nr n s)
  have ws: "length (skip_ws s) \<le> length s" by (rule length_skip_ws)
  show ?case
  proof (cases "skip_ws s")
    case Nil
    with "1.prems" show ?thesis by (simp add: json_value.simps)
  next
    case (Cons c rr)
    have rr: "length rr < length s" using ws Cons by simp
    have d: "length (drop 1 (skip_ws rr)) < length s" using rr length_skip_ws [of rr] by simp
    have arr: "length r' < length s"
      if "c = 0x5B" "n \<noteq> 0" "take 1 (skip_ws rr) \<noteq> [0x5D]" "json_elements nr (n - 1) rr = Some (vs, r')"
      for vs r'
      using "1.IH"(1) [OF Cons that(1-3) that(4)] rr by simp
    have obj: "length r' < length s"
      if "c = 0x7B" "n \<noteq> 0" "take 1 (skip_ws rr) \<noteq> [0x7D]" "json_members nr (n - 1) rr = Some (kvs, r')"
      for kvs r'
      using "1.IH"(2) [OF Cons _ that(1-3) that(4)] that(1) rr by simp
    have other: "json_value nr n s =
        (if c = 0x22 then map_option (apfst JStr) (parse_json_chars rr)
         else if c = 0x2D \<or> is_digit c then map_option (apfst (\<lambda>lit. JNum (nr lit))) (scan_number (c # rr))
         else scan_literal (c # rr))" if "c \<noteq> 0x5B" "c \<noteq> 0x7B"
      using that Cons by (simp add: json_value.simps)
    have unf_arr: "json_value nr n s =
        (if n = 0 then None
         else if take 1 (skip_ws rr) = [0x5D] then Some (JArr [], drop 1 (skip_ws rr))
         else map_option (apfst JArr) (json_elements nr (n - 1) rr))" if "c = 0x5B"
      using that Cons by (simp add: json_value.simps)
    have unf_obj: "json_value nr n s =
        (if n = 0 then None
         else if take 1 (skip_ws rr) = [0x7D] then Some (JObj [], drop 1 (skip_ws rr))
         else map_option (apfst JObj) (json_members nr (n - 1) rr))" if "c = 0x7B"
      using that Cons by (simp add: json_value.simps)
    consider (a) "c = 0x5B" | (o) "c = 0x7B" | (x) "c \<noteq> 0x5B" "c \<noteq> 0x7B" by blast
    then show ?thesis
    proof cases
      case a
      show ?thesis
      proof (cases "n = 0 \<or> take 1 (skip_ws rr) = [0x5D]")
        case True
        with "1.prems" unf_arr [OF a] d show ?thesis by (auto split: if_splits)
      next
        case False
        with "1.prems" unf_arr [OF a] obtain vs where "json_elements nr (n - 1) rr = Some (vs, r)" by auto
        with arr a False show ?thesis by blast
      qed
    next
      case o
      show ?thesis
      proof (cases "n = 0 \<or> take 1 (skip_ws rr) = [0x7D]")
        case True
        with "1.prems" unf_obj [OF o] d show ?thesis by (auto split: if_splits)
      next
        case False
        with "1.prems" unf_obj [OF o] obtain kvs where "json_members nr (n - 1) rr = Some (kvs, r)" by auto
        with obj o False show ?thesis by blast
      qed
    next
      case x
      with "1.prems" other [OF x] rr show ?thesis
        by (auto split: if_splits dest!: parse_json_chars_shorter scan_number_shorter scan_literal_shorter)
    qed
  qed
next
  case (2 nr n s)
  from "2.prems" obtain v r1 where val: "json_value nr n s = Some (v, r1)"
    by (auto simp: json_elements.simps split: option.splits)
  have r1: "length r1 < length s" by (rule "2.IH"(1) [OF val])
  from "2.prems" val obtain c r' where sk: "skip_ws r1 = c # r'"
    by (auto simp: json_elements.simps split: list.splits)
  have r': "length r' < length s" using r1 length_skip_ws [of r1] sk by simp
  show ?case
  proof (cases "c = 0x2C")
    case True
    with "2.prems" val sk obtain vs' where n: "n \<noteq> 0" and el: "json_elements nr (n - 1) r' = Some (vs', r)"
      by (auto simp: json_elements.simps split: if_splits)
    have "length r < length r'" by (rule "2.IH"(2) [OF val refl sk True n el])
    with r' show ?thesis by simp
  next
    case False
    with "2.prems" val sk have "r = r'" by (auto simp: json_elements.simps split: if_splits)
    with r' show ?thesis by simp
  qed
next
  case (3 nr n s)
  from "3.prems" obtain k r0 r1 where ps: "json_parse_string (skip_ws s) = Some (k, r0)"
    and ex: "expect 0x3A (skip_ws r0) = Some r1"
    by (auto simp: json_members.simps split: option.splits)
  from "3.prems" ps ex obtain v r2 where val: "json_value nr n r1 = Some (v, r2)"
    by (auto simp: json_members.simps split: option.splits)
  have "length r0 < length s" using json_parse_string_shorter [OF ps] length_skip_ws [of s] by simp
  moreover have "length r1 < length r0" using ex length_skip_ws [of r0]
    by (auto simp: expect_def split: list.splits if_splits)
  moreover have "length r2 < length r1" by (rule "3.IH"(1) [OF ps refl ex val])
  moreover from "3.prems" ps ex val obtain c r3 where sk: "skip_ws r2 = c # r3"
    by (auto simp: json_members.simps split: list.splits)
  ultimately have r3: "length r3 < length s" using length_skip_ws [of r2] by simp
  show ?case
  proof (cases "c = 0x2C")
    case True
    with "3.prems" ps ex val sk obtain kvs' where n: "n \<noteq> 0" and ms: "json_members nr (n - 1) r3 = Some (kvs', r)"
      by (auto simp: json_members.simps split: if_splits)
    have "length r < length r3" by (rule "3.IH"(2) [OF ps refl ex val refl sk True n ms])
    with r3 show ?thesis by simp
  next
    case False
    with "3.prems" ps ex val sk have "r = r3" by (auto simp: json_members.simps split: if_splits)
    with r3 show ?thesis by simp
  qed
qed

subsection \<open>The fuel is enough\<close>

lemma json_fuel_enough:
  "length s \<le> n \<Longrightarrow> length s \<le> m \<Longrightarrow> json_value nr n s = json_value nr m s"
  "length s \<le> n \<Longrightarrow> length s \<le> m \<Longrightarrow> json_elements nr n s = json_elements nr m s"
  "length s \<le> n \<Longrightarrow> length s \<le> m \<Longrightarrow> json_members nr n s = json_members nr m s"
proof (induction nr n s and nr n s and nr n s arbitrary: m and m and m
    rule: json_value_json_elements_json_members.induct)
  case (1 nr n s)
  show ?case
  proof (cases "skip_ws s")
    case Nil
    then show ?thesis by (simp add: json_value.simps)
  next
    case (Cons c rr)
    have rr: "length rr < n" "length rr < m" using "1.prems" length_skip_ws [of s] Cons by simp_all
    then have nm: "n \<noteq> 0" "m \<noteq> 0" by simp_all
    have el: "json_elements nr (n - 1) rr = json_elements nr (m - 1) rr"
      if "c = 0x5B" "take 1 (skip_ws rr) \<noteq> [0x5D]"
      using "1.IH"(1) [OF Cons that(1) nm(1) that(2), of "m - 1"] rr by simp
    have ob: "json_members nr (n - 1) rr = json_members nr (m - 1) rr"
      if "c = 0x7B" "take 1 (skip_ws rr) \<noteq> [0x7D]"
      using "1.IH"(2) [OF Cons _ that(1) nm(1) that(2), of "m - 1"] that(1) rr by simp
    show ?thesis using Cons nm el ob by (simp add: json_value.simps)
  qed
next
  case (2 nr n s)
  have val: "json_value nr n s = json_value nr m s" by (rule "2.IH"(1) [OF "2.prems"])
  show ?case
  proof (cases "json_value nr n s")
    case None
    with val show ?thesis by (simp add: json_elements.simps)
  next
    case (Some p)
    obtain v r1 where p: "p = (v, r1)" by fastforce
    have r1: "length r1 < length s" using json_rest_shorter(1) Some p by blast
    have vn: "json_value nr n s = Some (v, r1)" and vm: "json_value nr m s = Some (v, r1)"
      using val Some p by simp_all
    show ?thesis
    proof (cases "skip_ws r1")
      case Nil
      then show ?thesis by (simp add: json_elements_step [OF vn] json_elements_step [OF vm])
    next
      case (Cons c r')
      have r': "length r' < n" "length r' < m" using "2.prems" r1 length_skip_ws [of r1] Cons by simp_all
      have "json_elements nr (n - 1) r' = json_elements nr (m - 1) r'" if "c = 0x2C"
        using "2.IH"(2) [OF Some p [symmetric] Cons that, of "m - 1"] r' by simp
      with Cons r' show ?thesis by (simp add: json_elements_step [OF vn] json_elements_step [OF vm])
    qed
  qed
next
  case (3 nr n s)
  show ?case
  proof (cases "json_parse_string (skip_ws s)")
    case None
    then show ?thesis by (simp add: json_members.simps)
  next
    case (Some p)
    obtain k r0 where p: "p = (k, r0)" by fastforce
    show ?thesis
    proof (cases "expect 0x3A (skip_ws r0)")
      case None
      with Some p show ?thesis by (simp add: json_members.simps)
    next
      case (Some r1)
      have l1: "length r1 < length s"
        using json_parse_string_shorter [of "skip_ws s" k r0] \<open>json_parse_string (skip_ws s) = Some p\<close> p
          Some length_skip_ws [of s] length_skip_ws [of r0]
        by (auto simp: expect_def split: list.splits if_splits)
      have val: "json_value nr n r1 = json_value nr m r1"
        using "3.IH"(1) [OF \<open>json_parse_string (skip_ws s) = Some p\<close> p [symmetric] Some, of m] l1 "3.prems"
        by simp
      show ?thesis
      proof (cases "json_value nr n r1")
        case None
        with val \<open>json_parse_string (skip_ws s) = Some p\<close> p Some show ?thesis
          by (subst (1 2) json_members.simps) simp
      next
        case (Some q)
        obtain v r2 where q: "q = (v, r2)" by fastforce
        have r2: "length r2 < length s" using json_rest_shorter(1) Some q l1 by fastforce
        note ps = \<open>json_parse_string (skip_ws s) = Some p\<close> [unfolded p]
        note ex = \<open>expect 0x3A (skip_ws r0) = Some r1\<close>
        have vn: "json_value nr n r1 = Some (v, r2)" and vm: "json_value nr m r1 = Some (v, r2)"
          using val Some q by simp_all
        show ?thesis
        proof (cases "skip_ws r2")
          case Nil
          then show ?thesis by (simp add: json_members_step [OF ps ex vn] json_members_step [OF ps ex vm])
        next
          case (Cons c r3)
          have r3: "length r3 < n" "length r3 < m" using "3.prems" r2 length_skip_ws [of r2] Cons by simp_all
          have "json_members nr (n - 1) r3 = json_members nr (m - 1) r3" if "c = 0x2C"
            using "3.IH"(2) [OF \<open>json_parse_string (skip_ws s) = Some p\<close> p [symmetric]
                ex Some q [symmetric] Cons that, of "m - 1"] r3
            by simp
          with Cons r3 show ?thesis
            by (simp add: json_members_step [OF ps ex vn] json_members_step [OF ps ex vm])
        qed
      qed
    qed
  qed
qed

subsection \<open>Reading back what JSON.stringify writes\<close>

lemma scan_digits_append:
  "\<not> is_digit c \<Longrightarrow> scan_digits (s @ c # rest) = map_option (apsnd (\<lambda>r. r @ c # rest)) (scan_digits s)"
proof (cases "\<forall>x\<in>set s. is_digit x")
  case True
  assume c: "\<not> is_digit c"
  have t: "takeWhile is_digit (s @ c # rest) = s" "dropWhile is_digit (s @ c # rest) = c # rest"
    using True c by (simp_all add: takeWhile_append2 dropWhile_append2)
  have u: "takeWhile is_digit s = s" "dropWhile is_digit s = []" using True by simp_all
  show ?thesis unfolding scan_digits_def t u by simp
next
  case False
  then obtain x where "x \<in> set s" "\<not> is_digit x" by blast
  then show ?thesis by (simp add: scan_digits_def takeWhile_append1 dropWhile_append1)
qed

lemma scan_digits_Cons_None: "\<not> is_digit c \<Longrightarrow> scan_digits (c # rest) = None"
  by (simp add: scan_digits_def)

lemma scan_int_append:
  assumes c: "\<not> is_digit c"
  shows "scan_int (s @ c # rest) = map_option (apsnd (\<lambda>r. r @ c # rest)) (scan_int s)"
proof (cases s)
  case Nil
  have "c \<noteq> 0x30" using c by (auto simp: is_digit_def)
  with Nil c show ?thesis by (simp add: scan_int_def scan_digits_Cons_None scan_digits_def)
next
  case (Cons x xs)
  with scan_digits_append [OF c, of s rest] show ?thesis by (simp add: scan_int_def)
qed

lemma scan_frac_append:
  assumes c: "\<not> is_digit c" "c \<noteq> 0x2E"
  shows "scan_frac (s @ c # rest) = map_option (apsnd (\<lambda>r. r @ c # rest)) (scan_frac s)"
proof (cases s)
  case Nil
  with c show ?thesis by (simp add: scan_frac_def)
next
  case (Cons x xs)
  show ?thesis
  proof (cases "x = 0x2E")
    case True
    with Cons scan_digits_append [OF c(1), of xs rest] show ?thesis
      by (cases "scan_digits xs") (auto simp: scan_frac_def)
  next
    case False
    with Cons show ?thesis by (simp add: scan_frac_def)
  qed
qed

lemma scan_exp_append:
  assumes c: "\<not> is_digit c" "c \<noteq> 0x65" "c \<noteq> 0x45" "c \<noteq> 0x2B" "c \<noteq> 0x2D"
  shows "scan_exp (s @ c # rest) = map_option (apsnd (\<lambda>r. r @ c # rest)) (scan_exp s)"
proof (cases s)
  case Nil
  with c show ?thesis by (simp add: scan_exp_def)
next
  case (Cons x xs)
  show ?thesis
  proof (cases "x = 0x65 \<or> x = 0x45")
    case False
    with Cons show ?thesis by (simp add: scan_exp_def)
  next
    case e: True
    show ?thesis
    proof (cases xs)
      case Nil
      with Cons e c show ?thesis by (auto simp: scan_exp_def scan_digits_def)
    next
      case (Cons y ys)
      show ?thesis
      proof (cases "y = 0x2B \<or> y = 0x2D")
        case True
        with \<open>s = x # xs\<close> Cons e scan_digits_append [OF c(1), of ys rest] show ?thesis
          by (cases "scan_digits ys") (auto simp: scan_exp_def)
      next
        case False
        with \<open>s = x # xs\<close> Cons e scan_digits_append [OF c(1), of xs rest] show ?thesis
          by (cases "scan_digits xs") (auto simp: scan_exp_def)
      qed
    qed
  qed
qed

lemma scan_number_append:
  assumes c: "\<not> is_digit c" "c \<noteq> 0x2E" "c \<noteq> 0x65" "c \<noteq> 0x45" "c \<noteq> 0x2B" "c \<noteq> 0x2D"
  shows "scan_number (s @ c # rest) = map_option (apsnd (\<lambda>r. r @ c # rest)) (scan_number s)"
proof (cases s)
  case Nil
  have "c \<noteq> 0x30" using c by (auto simp: is_digit_def)
  with Nil c show ?thesis by (simp add: scan_number_def scan_int_def scan_digits_def Let_def)
next
  case (Cons x xs)
  define sg where "sg = (if x = 0x2D then [0x2D :: code_unit] else [])"
  define t where "t = drop (length sg) s"
  have drop: "drop (length sg) (s @ c # rest) = t @ c # rest" using Cons by (simp add: sg_def t_def)
  have unf: "scan_number u =
      (case scan_int (drop (length sg) u) of
         None \<Rightarrow> None
       | Some (i, r1) \<Rightarrow>
           (case scan_frac r1 of
              None \<Rightarrow> None
            | Some (f, r2) \<Rightarrow> (case scan_exp r2 of None \<Rightarrow> None | Some (e, r3) \<Rightarrow> Some (sg @ i @ f @ e, r3))))"
    if "take 1 u = [x]" for u
    using that unfolding scan_number_def Let_def sg_def by simp
  have "take 1 (s @ c # rest) = [x]" "take 1 s = [x]" using Cons by simp_all
  note u1 = unf [OF this(1), unfolded drop] and u2 = unf [OF this(2), folded t_def]
  show ?thesis
    unfolding u1 u2 scan_int_append [OF c(1)]
    using c
    by (cases "scan_int t")
      (auto simp: scan_frac_append scan_exp_append split: option.splits)
qed

lemma scan_number_stop:
  "scan_number r = Some (r, []) \<Longrightarrow> c = 0x2C \<or> c = 0x5D \<or> c = 0x7D \<Longrightarrow>
   scan_number (r @ c # rest) = Some (r, c # rest)"
  by (auto simp: scan_number_append is_digit_def)

lemma skip_ws_Cons: "\<not> is_json_ws c \<Longrightarrow> skip_ws (c # s) = c # s"
  by (simp add: skip_ws_def)

lemma number_start_char:
  "c = 0x2D \<or> is_digit c \<Longrightarrow>
   unat c < 0x80 \<and> \<not> is_json_ws c \<and> c \<noteq> 0x2C \<and> c \<noteq> 0x5D \<and> c \<noteq> 0x7D \<and> c \<noteq> 0x5B \<and> c \<noteq> 0x7B \<and> c \<noteq> 0x22"
  by (auto simp: is_digit_def is_json_ws_def word_le_nat_alt)

lemma scan_number_head: "scan_number s = Some p \<Longrightarrow> \<exists>c cs. s = c # cs \<and> (c = 0x2D \<or> is_digit c)"
proof (cases s)
  case Nil
  moreover assume "scan_number s = Some p"
  ultimately show ?thesis by (simp add: scan_number_def scan_int_def scan_digits_def)
next
  case (Cons c cs)
  moreover assume "scan_number s = Some p"
  ultimately show ?thesis
    by (auto simp: scan_number_def scan_int_def scan_digits_def is_digit_def Let_def split: if_splits)
qed

lemma json_stringify_head:
  "json_nums_ok nr j \<Longrightarrow>
   \<exists>c cs. json_stringify j = c # cs \<and> unat c < 0x80 \<and> \<not> is_json_ws c \<and> c \<noteq> 0x2C \<and> c \<noteq> 0x5D \<and> c \<noteq> 0x7D"
proof (cases j)
  case (JNum r)
  moreover assume "json_nums_ok nr j"
  ultimately obtain c cs where "r = c # cs" "c = 0x2D \<or> is_digit c" by (auto dest: scan_number_head)
  with JNum number_start_char [of c] show ?thesis by auto
next
  case (JBool b)
  then show ?thesis by (cases b) (simp_all add: js_def is_json_ws_def)
qed (simp_all add: js_def is_json_ws_def json_quote_def)

lemma json_elements_stringify:
  assumes "vs \<noteq> []"
    and "\<And>v n rest. v \<in> set vs \<Longrightarrow> rest = [] \<or> hd rest = 0x2C \<or> hd rest = 0x5D \<or> hd rest = 0x7D \<Longrightarrow>
           length (json_stringify v @ rest) \<le> n \<Longrightarrow> json_value nr n (json_stringify v @ rest) = Some (v, rest)"
    and "length (join_with [0x2C] (map json_stringify vs) @ 0x5D # rest) \<le> n"
  shows "json_elements nr n (join_with [0x2C] (map json_stringify vs) @ 0x5D # rest) = Some (vs, rest)"
  using assms
proof (induction vs arbitrary: n)
  case Nil
  then show ?case by simp
next
  case (Cons v vs)
  show ?case
  proof (cases "vs = []")
    case True
    have "json_value nr n (json_stringify v @ 0x5D # rest) = Some (v, 0x5D # rest)"
      using Cons.prems(2) [of v "0x5D # rest" n] Cons.prems(3) True by simp
    from json_elements_step [OF this] True show ?thesis by (simp add: skip_ws_Cons is_json_ws_def)
  next
    case False
    define tl' where "tl' = join_with [0x2C] (map json_stringify vs) @ 0x5D # rest"
    have eq: "join_with [0x2C] (map json_stringify (v # vs)) @ 0x5D # rest = json_stringify v @ 0x2C # tl'"
      using False by (simp add: tl'_def join_with_Cons)
    have l: "length (json_stringify v @ 0x2C # tl') \<le> n" using Cons.prems(3) by (simp only: eq)
    have val: "json_value nr n (json_stringify v @ 0x2C # tl') = Some (v, 0x2C # tl')"
      using l by (intro Cons.prems(2)) simp_all
    have len: "length tl' \<le> n - 1" "n \<noteq> 0" using l by simp_all
    have "json_elements nr (n - 1) tl' = Some (vs, rest)"
      unfolding tl'_def using False Cons.prems(2) len(1) by (intro Cons.IH) (auto simp: tl'_def)
    with json_elements_step [OF val] len show ?thesis unfolding eq by (simp add: skip_ws_Cons is_json_ws_def)
  qed
qed

lemma json_members_stringify:
  assumes "kvs \<noteq> []"
    and "\<And>k v n rest. (k, v) \<in> set kvs \<Longrightarrow> rest = [] \<or> hd rest = 0x2C \<or> hd rest = 0x5D \<or> hd rest = 0x7D \<Longrightarrow>
           length (json_stringify v @ rest) \<le> n \<Longrightarrow> json_value nr n (json_stringify v @ rest) = Some (v, rest)"
    and "length (join_with [0x2C] (map (\<lambda>(k, v). json_quote k @ 0x3A # json_stringify v) kvs) @ 0x7D # rest) \<le> n"
  shows "json_members nr n (join_with [0x2C] (map (\<lambda>(k, v). json_quote k @ 0x3A # json_stringify v) kvs) @ 0x7D # rest)
           = Some (kvs, rest)"
  using assms
proof (induction kvs arbitrary: n)
  case Nil
  then show ?case by simp
next
  case (Cons kv kvs)
  obtain k v where kv: "kv = (k, v)" by fastforce
  define tl' where "tl' = (if kvs = [] then 0x7D # rest
    else 0x2C # join_with [0x2C] (map (\<lambda>(k, v). json_quote k @ 0x3A # json_stringify v) kvs) @ 0x7D # rest)"
  have eq: "join_with [0x2C] (map (\<lambda>(k, v). json_quote k @ 0x3A # json_stringify v) (kv # kvs)) @ 0x7D # rest
      = json_quote k @ 0x3A # json_stringify v @ tl'"
    by (simp add: kv tl'_def join_with_Cons)
  have ps: "json_parse_string (skip_ws (json_quote k @ 0x3A # json_stringify v @ tl')) =
      Some (k, 0x3A # json_stringify v @ tl')"
    by (simp add: json_quote_def skip_ws_Cons is_json_ws_def json_parse_string_quote [of k, unfolded json_quote_def, simplified])
  have ex: "expect 0x3A (skip_ws (0x3A # json_stringify v @ tl')) = Some (json_stringify v @ tl')"
    by (simp add: skip_ws_Cons is_json_ws_def expect_def)
  have l: "length (json_quote k @ 0x3A # json_stringify v @ tl') \<le> n" using Cons.prems(3) by (simp only: eq)
  have stop: "tl' = [] \<or> hd tl' = 0x2C \<or> hd tl' = 0x5D \<or> hd tl' = 0x7D" by (simp add: tl'_def)
  have val: "json_value nr n (json_stringify v @ tl') = Some (v, tl')"
    using l stop by (intro Cons.prems(2) [of k v]) (simp_all add: kv)
  show ?case
  proof (cases "kvs = []")
    case True
    with json_members_step [OF ps ex val] show ?thesis unfolding eq by (simp add: kv tl'_def skip_ws_Cons is_json_ws_def)
  next
    case False
    have len: "length (join_with [0x2C] (map (\<lambda>(k, v). json_quote k @ 0x3A # json_stringify v) kvs) @ 0x7D # rest) \<le> n - 1"
      "n \<noteq> 0"
      using l False by (simp_all add: tl'_def)
    have "json_members nr (n - 1) (join_with [0x2C] (map (\<lambda>(k, v). json_quote k @ 0x3A # json_stringify v) kvs) @ 0x7D # rest)
        = Some (kvs, rest)"
      using False Cons.prems(2) len(1) by (intro Cons.IH) auto
    with json_members_step [OF ps ex val] False len show ?thesis
      unfolding eq by (simp add: kv tl'_def skip_ws_Cons is_json_ws_def)
  qed
qed

lemma json_value_stringify:
  "json_nums_ok nr j \<Longrightarrow> rest = [] \<or> hd rest = 0x2C \<or> hd rest = 0x5D \<or> hd rest = 0x7D \<Longrightarrow>
   length (json_stringify j @ rest) \<le> n \<Longrightarrow> json_value nr n (json_stringify j @ rest) = Some (j, rest)"
proof (induction j arbitrary: n rest rule: json_stringify.induct)
  case 1
  then show ?case
    by (simp add: json_value.simps js_def skip_ws_Cons is_json_ws_def is_digit_def scan_literal_def)
next
  case (2 b)
  then show ?case
    by (cases b) (simp_all add: json_value.simps js_def skip_ws_Cons is_json_ws_def is_digit_def scan_literal_def)
next
  case (3 r)
  then have sc: "scan_number r = Some (r, [])" and nr: "nr r = r" by simp_all
  obtain c cs where r: "r = c # cs" and c: "c = 0x2D \<or> is_digit c" using scan_number_head [OF sc] by blast
  have "scan_number (r @ rest) = Some (r, rest)"
  proof (cases rest)
    case Nil
    with sc show ?thesis by simp
  next
    case (Cons d ds)
    with "3.prems"(2) scan_number_stop [OF sc, of d ds] show ?thesis by simp
  qed
  with r c nr number_start_char [OF c] show ?case by (simp add: json_value.simps skip_ws_Cons)
next
  case (4 s)
  have "json_value nr n (json_quote s @ rest) = map_option (apfst JStr) (parse_json_chars (json_quote_units s @ 0x22 # rest))"
    by (simp add: json_quote_def json_value.simps skip_ws_Cons is_json_ws_def)
  then show ?case by (simp add: parse_quote_units)
next
  case (5 vs)
  have ok: "\<forall>v\<in>set vs. json_nums_ok nr v" using "5.prems"(1) by simp
  define body where "body = join_with [0x2C] (map json_stringify vs) @ 0x5D # rest"
  have eq: "json_stringify (JArr vs) @ rest = 0x5B # body" by (simp add: body_def)
  have n: "n \<noteq> 0" "length body \<le> n - 1" using "5.prems"(3) unfolding eq by simp_all
  show ?case
  proof (cases vs)
    case Nil
    with n show ?thesis unfolding eq by (simp add: body_def json_value.simps skip_ws_Cons is_json_ws_def)
  next
    case (Cons v vs')
    obtain c cs where hd: "json_stringify v = c # cs" "\<not> is_json_ws c" "c \<noteq> 0x5D"
      using json_stringify_head [of nr v] ok Cons by auto
    have sk: "skip_ws body = body" "take 1 body = [c]"
      using hd Cons by (simp_all add: body_def join_with_Cons skip_ws_Cons)
    have "json_elements nr (n - 1) body = Some (vs, rest)"
      unfolding body_def
    proof (rule json_elements_stringify)
      show "vs \<noteq> []" using Cons by simp
      show "length (join_with [0x2C] (map json_stringify vs) @ 0x5D # rest) \<le> n - 1" using n by (simp add: body_def)
    next
      fix v n rest
      assume "v \<in> set vs" "rest = [] \<or> hd rest = 0x2C \<or> hd rest = 0x5D \<or> hd rest = 0x7D"
        "length (json_stringify v @ rest) \<le> n"
      with ok show "json_value nr n (json_stringify v @ rest) = Some (v, rest)" by (intro "5.IH") auto
    qed
    with n sk hd show ?thesis unfolding eq by (simp add: json_value.simps skip_ws_Cons is_json_ws_def)
  qed
next
  case (6 kvs)
  have ok: "\<forall>kv\<in>set kvs. json_nums_ok nr (snd kv)" using "6.prems"(1) by simp
  define body where "body = join_with [0x2C] (map (\<lambda>(k, v). json_quote k @ 0x3A # json_stringify v) kvs) @ 0x7D # rest"
  have eq: "json_stringify (JObj kvs) @ rest = 0x7B # body" by (simp add: body_def)
  have n: "n \<noteq> 0" "length body \<le> n - 1" using "6.prems"(3) unfolding eq by simp_all
  show ?case
  proof (cases kvs)
    case Nil
    with n show ?thesis unfolding eq by (simp add: body_def json_value.simps skip_ws_Cons is_json_ws_def)
  next
    case (Cons kv kvs')
    have sk: "take 1 (skip_ws body) = [0x22]"
      using Cons by (auto simp: body_def join_with_Cons skip_ws_Cons json_quote_def is_json_ws_def split: prod.splits)
    have "json_members nr (n - 1) body = Some (kvs, rest)"
      unfolding body_def
    proof (rule json_members_stringify)
      show "kvs \<noteq> []" using Cons by simp
      show "length (join_with [0x2C] (map (\<lambda>(k, v). json_quote k @ 0x3A # json_stringify v) kvs) @ 0x7D # rest) \<le> n - 1"
        using n by (simp add: body_def)
    next
      fix k v n rest
      assume "(k, v) \<in> set kvs" "rest = [] \<or> hd rest = 0x2C \<or> hd rest = 0x5D \<or> hd rest = 0x7D"
        "length (json_stringify v @ rest) \<le> n"
      with ok show "json_value nr n (json_stringify v @ rest) = Some (v, rest)" by (intro "6.IH") auto
    qed
    with n sk show ?thesis unfolding eq by (simp add: json_value.simps skip_ws_Cons is_json_ws_def)
  qed
qed

subsection \<open>Reading the bytes of a stringified value\<close>

lemma is_digit_ascii: "is_digit c \<Longrightarrow> unat c < 0x80"
  by (auto simp: is_digit_def word_le_nat_alt)

lemma scan_digits_ascii: "scan_digits s = Some (t, r) \<Longrightarrow> \<forall>c\<in>set t. unat c < 0x80"
  by (auto simp: scan_digits_def split: if_splits dest!: set_takeWhileD intro: is_digit_ascii)

lemma scan_int_ascii: "scan_int s = Some (t, r) \<Longrightarrow> \<forall>c\<in>set t. unat c < 0x80"
proof (cases "take 1 s = [0x30]")
  case True
  moreover assume "scan_int s = Some (t, r)"
  ultimately have "t = [0x30]" by (simp add: scan_int_def)
  then show ?thesis by simp
next
  case False
  moreover assume "scan_int s = Some (t, r)"
  ultimately show ?thesis by (simp add: scan_int_def scan_digits_ascii)
qed

lemma scan_frac_ascii: "scan_frac s = Some (t, r) \<Longrightarrow> \<forall>c\<in>set t. unat c < 0x80"
  by (auto simp: scan_frac_def split: if_splits dest!: scan_digits_ascii)

lemma scan_exp_ascii: "scan_exp s = Some (t, r) \<Longrightarrow> \<forall>c\<in>set t. unat c < 0x80"
proof (cases s)
  case (Cons x xs)
  moreover assume "scan_exp s = Some (t, r)"
  ultimately show ?thesis
    by (cases xs) (auto simp: scan_exp_def split: if_splits dest!: scan_digits_ascii)
qed (auto simp: scan_exp_def)

lemma scan_number_ascii: "scan_number s = Some (t, r) \<Longrightarrow> \<forall>c\<in>set t. unat c < 0x80"
  by (auto simp: scan_number_def Let_def split: option.splits if_splits
      dest!: scan_int_ascii scan_frac_ascii scan_exp_ascii)

lemma well_formed_ascii: "\<forall>c\<in>set t. unat c < 0x80 \<Longrightarrow> well_formed_utf16 t"
proof (rule well_formed_utf16_plain)
  assume "\<forall>c\<in>set t. unat c < 0x80"
  moreover have "\<And>c. unat c < 0x80 \<Longrightarrow> \<not> is_high_surrogate c \<and> \<not> is_low_surrogate c"
    using ascii_not_surrogate by simp
  ultimately show "\<forall>c\<in>set t. \<not> is_high_surrogate c \<and> \<not> is_low_surrogate c" by blast
qed

lemma well_formed_stringify: "json_nums_ok nr j \<Longrightarrow> well_formed_utf16 (json_stringify j)"
proof (induction j rule: json_stringify.induct)
  case (3 r)
  then show ?case by (auto intro: well_formed_ascii dest: scan_number_ascii)
next
  case (5 vs)
  then have "\<forall>x\<in>set (map json_stringify vs). well_formed_utf16 x" by auto
  then show ?case by (simp add: well_formed_utf16_join_with well_formed_utf16_append is_high_surrogate_def
      is_low_surrogate_def)
next
  case (6 kvs)
  then have "\<forall>x\<in>set (map (\<lambda>(k, v). json_quote k @ 0x3A # json_stringify v) kvs). well_formed_utf16 x"
    by (auto simp: well_formed_utf16_append well_formed_json_quote is_high_surrogate_def is_low_surrogate_def)
  then show ?case by (simp add: well_formed_utf16_join_with well_formed_utf16_append is_high_surrogate_def
      is_low_surrogate_def)
qed (simp_all add: well_formed_json_quote js_def is_high_surrogate_def is_low_surrogate_def)

lemma strip_bom_ascii: "unat c < 0x80 \<Longrightarrow> strip_bom (utf8_bytes (c # cs)) = utf8_bytes (c # cs)"
proof -
  assume c: "unat c < 0x80"
  then have "\<not> is_high_surrogate c" "\<not> is_low_surrogate c" using ascii_not_surrogate [of c] by simp_all
  with c have b: "utf8_bytes (c # cs) = of_nat (unat c) # utf8_bytes cs"
    by (simp add: utf8_bytes_def utf8_encode_def)
  have "(of_nat (unat c) :: 8 word) \<noteq> 0xEF"
  proof
    assume "(of_nat (unat c) :: 8 word) = 0xEF"
    then have "unat (of_nat (unat c) :: 8 word) = 239" by simp
    with unat_of_nat_byte [of "unat c"] c show False by simp
  qed
  then show ?thesis by (simp add: strip_bom_def b)
qed

lemma utf8_decode_whatwg_ascii:
  "unat c < 0x80 \<Longrightarrow> utf16_encode (utf8_decode_whatwg (utf8_bytes (c # cs))) = to_well_formed (c # cs)"
proof -
  assume c: "unat c < 0x80"
  have "utf8_decode_whatwg (utf8_bytes (c # cs)) = utf16_scalars (c # cs)"
    unfolding utf8_decode_whatwg_def strip_bom_ascii [OF c] by (rule utf8_decode_step_valid [OF utf8_decode_bytes])
  then show ?thesis by (simp only: utf16_encode_scalars)
qed

lemma json_parse_stringify: "json_nums_ok nr j \<Longrightarrow> json_parse nr (json_stringify j) = Some j"
  using json_value_stringify [of nr j "[]" "length (json_stringify j)"] by (simp add: json_parse_def skip_ws_def)

lemma res_json_stringify: "json_nums_ok nr j \<Longrightarrow> res_json nr (utf8_bytes (json_stringify j)) = Some j"
proof -
  assume ok: "json_nums_ok nr j"
  obtain c cs where hd: "json_stringify j = c # cs" "unat c < 0x80" using json_stringify_head [OF ok] by blast
  have "to_well_formed (json_stringify j) = json_stringify j" by (rule to_well_formed_id) (rule well_formed_stringify [OF ok])
  with hd utf8_decode_whatwg_ascii [OF hd(2), of cs] json_parse_stringify [OF ok] show ?thesis
    by (simp add: res_json_def)
qed

lemma json_nums_ok_string_object: "json_nums_ok nr (string_object kvs)"
  by (auto simp: string_object_def)

lemma res_json_string_object: "res_json nr (utf8_bytes (json_stringify (string_object kvs))) = Some (string_object kvs)"
  by (rule res_json_stringify) (rule json_nums_ok_string_object)

lemma json_parse_markup: "json_parse nr (0x3C # t) = None"
  by (simp add: json_parse_def json_value.simps skip_ws_Cons is_json_ws_def is_digit_def scan_literal_def js_def)

lemma res_json_markup: "res_json nr (utf8_bytes (0x3C # t)) = None"
proof -
  have "\<not> is_high_surrogate (0x3C :: code_unit)" "\<not> is_low_surrogate (0x3C :: code_unit)"
    by (simp_all add: is_high_surrogate_def is_low_surrogate_def)
  then have "to_well_formed (0x3C # t) = 0x3C # to_well_formed t" by simp
  with utf8_decode_whatwg_ascii [of "0x3C" t] show ?thesis by (simp add: res_json_def json_parse_markup)
qed

text \<open>
  An ill-formed byte in the body is not a syntax error: the decoder replaces it
  by U+FFFD before \<open>JSON.parse\<close> runs.
\<close>

lemma res_json_replaces_invalid_utf8:
  "res_json id [0x7B, 0x22, 0x74, 0x22, 0x3A, 0x22, 0xFF, 0x41, 0x22, 0x7D] = Some (JObj [(js ''t'', JStr [0xFFFD, 0x41])])"
  by (simp add: js_eval json_value.simps json_members.simps)

text \<open>
  C10: \<open>esvGet\<close> reads back what the upstream serialises. When the upstream sends
  \<open>JSON.stringify(v)\<close> as UTF-8, \<open>esvGet\<close> resolves with \<open>v\<close> on a 2xx status and
  throws what \<open>new Error(v?.detail || `HTTP ${status}`)\<close> throws otherwise (the
  \<open>TypeError\<close> of \<open>ToString\<close> when \<open>detail\<close> is an object with its own
  \<open>toString\<close>). Strings may hold any code units,
  lone surrogates included; numbers are literals that the engine renders as
  themselves.
\<close>

theorem esv_get_reads_body:
  "json_nums_ok nr v \<Longrightarrow>
   esv_get_result (fetch_response nr st (utf8_bytes (json_stringify v))) =
     (if response_ok st then Inr v else Inl (new_Error_of (upstream_message v st)))"
  by (simp add: fetch_response_def esv_get_result_def res_json_stringify parsed_or_empty_def Let_def)

lemma esv_get_reads_body_witness:
  "esv_get_result (fetch_response id 200 (utf8_bytes (json_stringify
       (JObj [(js ''passages'', JArr [JStr (js ''In the beginning''), JNum (js ''-1.5e+3'')])]))))
   = Inr (JObj [(js ''passages'', JArr [JStr (js ''In the beginning''), JNum (js ''-1.5e+3'')])])
   \<and> esv_get_result (fetch_response id 404 (utf8_bytes (json_stringify
       (JObj [(js ''detail'', JObj [(js ''toString'', JNum (js ''1''))])]))))
   = Inl (new_TypeError (js ''Cannot convert object to primitive value''))"
  using esv_get_reads_body [of id "JObj [(js ''passages'', JArr [JStr (js ''In the beginning''), JNum (js ''-1.5e+3'')])]" 200]
    esv_get_reads_body [of id "JObj [(js ''detail'', JObj [(js ''toString'', JNum (js ''1''))])]" 404]
  by (simp add: js_eval)

text \<open>
  C23: on well-formed UTF-8 that does not begin with a byte order mark, the
  decoder of the Encoding standard, which \<open>res.json()\<close> applies, returns exactly
  the scalar values of the strict RFC 3629 decoder.
\<close>

theorem utf8_decode_whatwg_agrees:
  "utf8_decode bs = Some cps \<Longrightarrow> take 3 bs \<noteq> [0xEF, 0xBB, 0xBF] \<Longrightarrow> utf8_decode_whatwg bs = cps"
  by (simp add: utf8_decode_whatwg_def strip_bom_def utf8_decode_step_valid)

lemma utf8_decode_whatwg_agrees_witness:
  "utf8_decode_whatwg [0x41, 0xC3, 0xA9, 0xE2, 0x80, 0x93, 0xF0, 0x9F, 0x98, 0x80] = [0x41, 0xE9, 0x2013, 0x1F600]"
  by (rule utf8_decode_whatwg_agrees) (simp_all add: utf8_cont_def)

text \<open>
  C27: whenever the application answers a request with JSON, the body is an
  object of string members, and a client that sent \<open>GET\<close> and reads the bytes on
  the wire with \<open>res.json()\<close> gets exactly that object.
\<close>

theorem app_json_on_wire:
  assumes "res_body (snd (run_prog u (app_handle key req))) = BodyJson j"
  shows "\<exists>kvs. j = string_object kvs
           \<and> Option.bind (wire_body GET (snd (run_prog u (app_handle key req)))) (res_json nr) = Some j"
proof -
  have wf: "response_wf (snd (run_prog u (app_handle key req)))"
    using app_replies [of u key req] by (auto simp: fixed_replies_wf passage_reply_wf)
  with assms obtain kvs where j: "j = string_object kvs"
    and st: "res_status (snd (run_prog u (app_handle key req))) \<noteq> 204"
    by (auto simp: response_wf_def)
  with assms res_json_string_object [of nr kvs] show ?thesis by (auto simp: wire_body_def body_text_def)
qed

lemma app_json_on_wire_witness:
  "\<exists>kvs. string_object [(js ''query'', js ''John 3:16''), (js ''text'', js ''For God so loved'')] =
       string_object kvs
     \<and> Option.bind (wire_body GET (snd (run_prog
          (\<lambda>r. FetchResponse 200 (Some (JObj [(js ''passages'', JArr [JStr (js '' For God so loved\<newline>'')])])))
          (app_handle (js ''key'') \<lparr>req_method = GET, req_path = js ''/passage'', req_q = QString (js ''John 3:16'')\<rparr>))))
         (res_json id)
       = Some (string_object [(js ''query'', js ''John 3:16''), (js ''text'', js ''For God so loved'')])"
  by (rule app_json_on_wire) (simp add: js_eval Let_def del: esv_url_def)

end
