(* ===== verification/EventLoop.thy ===== *)
theory EventLoop
  imports Server
begin

text \<open>
  The server of \<^verbatim>\<open>src/server.js\<close> serving many requests at once. \<open>app.listen\<close>
  (lines 69--72) hands each incoming request to the application. Node runs the
  handler synchronously up to its first \<open>await\<close>, which is the \<open>fetch\<close> of
  \<open>esvGet\<close>, and resumes it when that promise settles. Requests therefore
  interleave: a second request may arrive, or even finish, while the first waits
  for the upstream, and upstream answers may come back in any order.

  The model is an explicit sequence of events.
  \<^item> \<open>Arrive i req\<close> is the arrival of request \<open>req\<close> on connection \<open>i\<close>. A
    connection carries one request, so a repeated arrival on a known connection
    changes nothing.
  \<^item> \<open>Settle i out\<close> is the settling of connection \<open>i\<close>'s outbound \<open>fetch\<close> with
    the outcome \<open>out\<close>. It changes nothing when no fetch of \<open>i\<close> is pending.
  \<open>server_step\<close> runs the program of \<open>app_handle\<close> (\<open>run_until_await\<close>). It
  either sends the response, or records the outbound request and the
  continuation. \<open>server_run\<close> folds it over the events.

  The handlers share no mutable state, only the credential, which is fixed at
  start-up. The theory proves the consequences:
  \<^item> an invariant of every reachable state: no connection is answered twice, and
    none is both waiting and answered;
  \<^item> independence: what connection \<open>i\<close> receives depends only on the events of
    \<open>i\<close>;
  \<^item> refinement: with its events interleaved among any others, a request gets
    exactly the response of the sequential model \<open>run_prog\<close>;
  \<^item> liveness: once its fetch settles, every request that arrived has been
    answered exactly once;
  \<^item> safety: no connection issues more than one outbound \<open>fetch\<close>.
\<close>

datatype event = Arrive nat http_request | Settle nat fetch_outcome

primrec event_id :: "event \<Rightarrow> nat" where
  "event_id (Arrive i req) = i"
| "event_id (Settle i out) = i"

type_synonym waiting = "nat \<times> outbound_request \<times> (fetch_outcome \<Rightarrow> response prog)"

record server_state =
  seen :: "nat list"
  pending :: "waiting list"
  sent :: "(nat \<times> response) list"
  outbox :: "(nat \<times> outbound_request) list"

definition init_server :: server_state where
  "init_server = \<lparr>seen = [], pending = [], sent = [], outbox = []\<rparr>"

definition run_until_await :: "nat \<Rightarrow> response prog \<Rightarrow> server_state \<Rightarrow> server_state" where
  "run_until_await i p st =
     (case p of
        Ret r \<Rightarrow> st\<lparr>sent := sent st @ [(i, r)]\<rparr>
      | Await rq k \<Rightarrow> st\<lparr>pending := pending st @ [(i, rq, k)], outbox := outbox st @ [(i, rq)]\<rparr>)"

definition server_step :: "jsstr \<Rightarrow> server_state \<Rightarrow> event \<Rightarrow> server_state" where
  "server_step key st e =
     (case e of
        Arrive i req \<Rightarrow>
          if i \<in> set (seen st) then st
          else run_until_await i (app_handle key req) (st\<lparr>seen := seen st @ [i]\<rparr>)
      | Settle i out \<Rightarrow>
          (case map_of (pending st) i of
             None \<Rightarrow> st
           | Some (rq, k) \<Rightarrow> run_until_await i (k out) (st\<lparr>pending := filter (\<lambda>w. fst w \<noteq> i) (pending st)\<rparr>)))"

definition server_run :: "jsstr \<Rightarrow> server_state \<Rightarrow> event list \<Rightarrow> server_state" where
  "server_run key st evs = foldl (server_step key) st evs"

definition sent_to :: "nat \<Rightarrow> server_state \<Rightarrow> response list" where
  "sent_to i st = map snd (filter (\<lambda>s. fst s = i) (sent st))"

definition server_inv :: "server_state \<Rightarrow> bool" where
  "server_inv st \<longleftrightarrow>
     distinct (seen st) \<and> distinct (map fst (pending st)) \<and> distinct (map fst (sent st))
     \<and> set (map fst (pending st)) \<inter> set (map fst (sent st)) = {}
     \<and> set (map fst (pending st)) \<union> set (map fst (sent st)) \<subseteq> set (seen st)"

text \<open>
  The part of a state that concerns one connection: the device of the
  independence proof.
\<close>

definition restrict_to :: "nat \<Rightarrow> server_state \<Rightarrow> server_state" where
  "restrict_to i st =
     \<lparr>seen = filter (\<lambda>j. j = i) (seen st), pending = filter (\<lambda>w. fst w = i) (pending st),
      sent = filter (\<lambda>s. fst s = i) (sent st), outbox = filter (\<lambda>ob. fst ob = i) (outbox st)\<rparr>"

declare init_server_def [js_eval] run_until_await_def [js_eval] server_step_def [js_eval]
  server_run_def [js_eval] sent_to_def [js_eval] server_inv_def [js_eval]

subsection \<open>The invariant\<close>

lemma server_step_inv:
  assumes inv: "server_inv st"
  shows "server_inv (server_step key st e)"
proof (cases e)
  case (Arrive i req)
  show ?thesis
  proof (cases "i \<in> set (seen st)")
    case True
    with Arrive inv show ?thesis by (simp add: server_step_def)
  next
    case False
    with inv have "i \<notin> set (map fst (pending st))" "i \<notin> set (map fst (sent st))"
      by (auto simp: server_inv_def)
    with False inv Arrive show ?thesis
      by (cases "app_handle key req") (auto simp: server_step_def server_inv_def run_until_await_def)
  qed
next
  case (Settle i out)
  show ?thesis
  proof (cases "map_of (pending st) i")
    case None
    with Settle inv show ?thesis by (simp add: server_step_def)
  next
    case (Some a)
    obtain rq k where a: "a = (rq, k)" by fastforce
    with Some have "(i, rq, k) \<in> set (pending st)" by (simp add: map_of_SomeD)
    with inv have i: "i \<in> set (seen st)" "i \<notin> set (map fst (sent st))"
      by (auto simp: server_inv_def) (metis IntI empty_iff fst_conv image_eqI)
    have "distinct (map fst (filter (\<lambda>w. fst w \<noteq> i) (pending st)))"
      using inv by (simp add: server_inv_def distinct_map_filter)
    with i inv Settle Some a show ?thesis
      by (cases "k out") (auto simp: server_step_def server_inv_def run_until_await_def)
  qed
qed

lemma server_run_inv_from: "server_inv st \<Longrightarrow> server_inv (server_run key st evs)"
  by (induction evs arbitrary: st) (simp_all add: server_run_def server_step_inv)

lemma init_server_inv: "server_inv init_server"
  by (simp add: server_inv_def init_server_def)

subsection \<open>One connection at a time\<close>

lemma restrict_run_until_await:
  "restrict_to i (run_until_await j p st) =
     (if j = i then run_until_await j p (restrict_to i st) else restrict_to i st)"
  by (cases p) (simp_all add: run_until_await_def restrict_to_def)

lemma map_of_filter_key: "map_of (filter (\<lambda>w. fst w = i) ps) i = map_of ps i"
  by (induction ps) auto

lemma restrict_seen_add:
  "restrict_to i (st\<lparr>seen := seen st @ [j]\<rparr>) =
     (if j = i then (restrict_to i st)\<lparr>seen := seen (restrict_to i st) @ [j]\<rparr> else restrict_to i st)"
  by (simp add: restrict_to_def)

lemma restrict_pending_remove:
  "restrict_to i (st\<lparr>pending := filter (\<lambda>w. fst w \<noteq> j) (pending st)\<rparr>) =
     (if j = i then (restrict_to i st)\<lparr>pending := filter (\<lambda>w. fst w \<noteq> j) (pending (restrict_to i st))\<rparr>
      else restrict_to i st)"
proof (cases "j = i")
  case False
  then have "filter (\<lambda>w. fst w = i) (filter (\<lambda>w. fst w \<noteq> j) (pending st)) = filter (\<lambda>w. fst w = i) (pending st)"
    by (auto simp: filter_filter intro: filter_cong)
  with False show ?thesis by (simp add: restrict_to_def)
qed (simp add: restrict_to_def filter_filter)

lemma restrict_seen_iff: "i \<in> set (seen (restrict_to i st)) \<longleftrightarrow> i \<in> set (seen st)"
  by (simp add: restrict_to_def)

lemma restrict_lookup: "map_of (pending (restrict_to i st)) i = map_of (pending st) i"
  by (simp add: restrict_to_def map_of_filter_key)

lemma restrict_step:
  "restrict_to i (server_step key st e) =
     (if event_id e = i then server_step key (restrict_to i st) e else restrict_to i st)"
proof (cases e)
  case (Arrive j req)
  then show ?thesis
    by (cases "j = i")
      (simp_all add: server_step_def restrict_run_until_await restrict_seen_add restrict_seen_iff)
next
  case (Settle j out)
  then show ?thesis
    by (cases "j = i")
      (auto simp: server_step_def restrict_run_until_await restrict_pending_remove restrict_lookup
        split: option.split)
qed

lemma restrict_run:
  "restrict_to i (server_run key st evs) = server_run key (restrict_to i st) (filter (\<lambda>e. event_id e = i) evs)"
  by (induction evs arbitrary: st) (simp_all add: server_run_def restrict_step)

lemma sent_to_restrict: "sent_to i (restrict_to i st) = sent_to i st"
  by (simp add: sent_to_def restrict_to_def)

lemma outbox_restrict: "outbox (restrict_to i st) = filter (\<lambda>ob. fst ob = i) (outbox st)"
  by (simp add: restrict_to_def)

lemma restrict_init: "restrict_to i init_server = init_server"
  by (simp add: restrict_to_def init_server_def)

lemma sent_to_run:
  "sent_to i (server_run key st evs) =
     sent_to i (server_run key (restrict_to i st) (filter (\<lambda>e. event_id e = i) evs))"
proof -
  have "sent_to i (server_run key st evs) = sent_to i (restrict_to i (server_run key st evs))"
    by (simp add: sent_to_restrict)
  then show ?thesis by (simp add: restrict_run sent_to_restrict)
qed

subsection \<open>The life of one request\<close>

lemma app_handle_shape:
  "(\<exists>r. app_handle key req = Ret r) \<or> (\<exists>rq g. app_handle key req = Await rq (\<lambda>x. Ret (g x)))"
  by (auto simp: app_handle_def cors_middleware_def router_def passage_handler_def esv_get_def Let_def)

lemma server_run_snoc: "server_run key st (evs @ [e]) = server_step key (server_run key st evs) e"
  by (simp add: server_run_def)

lemma own_lifecycle:
  assumes "\<forall>e\<in>set evs. event_id e = i"
  shows "(seen (server_run key init_server evs) = [] \<and> pending (server_run key init_server evs) = []
          \<and> sent (server_run key init_server evs) = [] \<and> outbox (server_run key init_server evs) = []
          \<and> (\<forall>req. Arrive i req \<notin> set evs))
     \<or> (seen (server_run key init_server evs) = [i] \<and> sent (server_run key init_server evs) = []
          \<and> (\<exists>rq g. pending (server_run key init_server evs) = [(i, rq, \<lambda>x. Ret (g x))])
          \<and> length (outbox (server_run key init_server evs)) \<le> 1)
     \<or> (seen (server_run key init_server evs) = [i] \<and> pending (server_run key init_server evs) = []
          \<and> (\<exists>r. sent (server_run key init_server evs) = [(i, r)])
          \<and> length (outbox (server_run key init_server evs)) \<le> 1)"
  using assms
proof (induction evs rule: rev_induct)
  case Nil
  then show ?case by (simp add: server_run_def init_server_def)
next
  case (snoc e evs)
  define st where "st = server_run key init_server evs"
  from snoc have ih:
    "(seen st = [] \<and> pending st = [] \<and> sent st = [] \<and> outbox st = [] \<and> (\<forall>req. Arrive i req \<notin> set evs))
     \<or> (seen st = [i] \<and> sent st = [] \<and> (\<exists>rq g. pending st = [(i, rq, \<lambda>x. Ret (g x))])
          \<and> length (outbox st) \<le> 1)
     \<or> (seen st = [i] \<and> pending st = [] \<and> (\<exists>r. sent st = [(i, r)]) \<and> length (outbox st) \<le> 1)"
    by (simp add: st_def)
  from snoc.prems have e: "event_id e = i" by simp
  show ?case
  proof (cases e)
    case (Arrive j req)
    with e have j: "j = i" by simp
    from app_handle_shape [of key req] ih Arrive j show ?thesis
      by (auto simp: server_run_snoc server_step_def run_until_await_def simp flip: st_def)
  next
    case (Settle j out)
    with e have j: "j = i" by simp
    from ih Settle j show ?thesis
      by (auto simp: server_run_snoc server_step_def run_until_await_def simp flip: st_def)
  qed
qed

text \<open>
  The invariant of the event loop holds in every state reachable by any
  interleaving of arrivals and settlements. It is a fact of the loop, not of the
  handler: the loop dispatches each connection once and resumes a handler only
  from its pending continuation.
\<close>

theorem server_run_inv: "server_inv (server_run key init_server evs)"
  by (rule server_run_inv_from [OF init_server_inv])

text \<open>
  C11: the concurrent server refines the sequential model of one request. When
  the events of connection \<open>i\<close> are its arrival with \<open>req\<close> and then the settling
  of its fetch with \<open>out\<close>, interleaved with the events of any other connections,
  \<open>i\<close> receives exactly one response: the one \<open>run_prog\<close> computes for
  \<open>app_handle\<close> against an upstream that answers \<open>out\<close>.
\<close>

theorem request_refines_sequential:
  assumes "filter (\<lambda>e. event_id e = i) evs = [Arrive i req, Settle i out]"
  shows "sent_to i (server_run key init_server evs) = [snd (run_prog (\<lambda>r. out) (app_handle key req))]"
proof -
  have "sent_to i (server_run key init_server evs) =
      sent_to i (server_run key init_server [Arrive i req, Settle i out])"
    using assms sent_to_run [of i key init_server evs] by (simp add: restrict_init)
  also have "\<dots> = [snd (run_prog (\<lambda>r. out) (app_handle key req))]"
    using app_handle_shape [of key req]
    by (auto simp: server_run_def server_step_def run_until_await_def init_server_def sent_to_def)
  finally show ?thesis .
qed

lemma request_refines_sequential_witness:
  "sent_to 1 (server_run (js ''key'') init_server
      [Arrive 1 \<lparr>req_method = GET, req_path = js ''/passage'', req_q = QString (js ''John 3:16'')\<rparr>,
       Arrive 2 \<lparr>req_method = GET, req_path = js ''/healthz'', req_q = QUndefined\<rparr>,
       Settle 1 (FetchResponse 503 None)])
   = [snd (run_prog (\<lambda>r. FetchResponse 503 None)
        (app_handle (js ''key'') \<lparr>req_method = GET, req_path = js ''/passage'', req_q = QString (js ''John 3:16'')\<rparr>))]"
  by (rule request_refines_sequential) simp

text \<open>
  C12: liveness. Every request that arrived has received exactly one response
  once the outbound fetch of its connection settles, whatever else happened
  before.
\<close>

theorem settled_request_answered:
  assumes "Arrive i req \<in> set evs"
  shows "\<exists>r. sent_to i (server_run key init_server (evs @ [Settle i out])) = [r]"
proof -
  define fe where "fe = filter (\<lambda>e. event_id e = i) evs"
  have own: "\<forall>e\<in>set fe. event_id e = i" by (simp add: fe_def)
  have arrived: "Arrive i req \<in> set fe" using assms by (simp add: fe_def)
  have "sent_to i (server_run key init_server (evs @ [Settle i out])) =
      sent_to i (server_run key init_server (fe @ [Settle i out]))"
    using sent_to_run [of i key init_server "evs @ [Settle i out]"]
    by (simp add: restrict_init fe_def)
  moreover from own_lifecycle [OF own, of key] arrived
  have "\<exists>r. sent_to i (server_run key init_server (fe @ [Settle i out])) = [r]"
    by (auto simp: server_run_snoc server_step_def run_until_await_def sent_to_def)
  ultimately show ?thesis by simp
qed

lemma settled_request_answered_witness:
  "\<exists>r. sent_to 1 (server_run (js ''key'') init_server
      [Arrive 1 \<lparr>req_method = GET, req_path = js ''/passage'', req_q = QString (js ''John 3:16'')\<rparr>,
       Settle 1 (FetchResponse 200 None)]) = [r]"
proof -
  have "Arrive 1 \<lparr>req_method = GET, req_path = js ''/passage'', req_q = QString (js ''John 3:16'')\<rparr>
      \<in> set [Arrive 1 \<lparr>req_method = GET, req_path = js ''/passage'', req_q = QString (js ''John 3:16'')\<rparr>]"
    by simp
  from settled_request_answered [OF this, of "js ''key''" "FetchResponse 200 None"] show ?thesis by simp
qed

text \<open>
  C13: each connection makes at most one request upstream. Under any interleaving
  of arrivals and settlements, with repeated arrivals and settlements on the
  connection among them, the server issues at most one outbound \<open>fetch\<close> for a
  connection.
\<close>

theorem one_fetch_per_connection:
  "length (filter (\<lambda>ob. fst ob = i) (outbox (server_run key init_server evs))) \<le> 1"
proof -
  have "filter (\<lambda>ob. fst ob = i) (outbox (server_run key init_server evs)) =
      outbox (server_run key init_server (filter (\<lambda>e. event_id e = i) evs))"
    using arg_cong [OF restrict_run [of i key init_server evs], of outbox]
    by (simp add: restrict_init outbox_restrict)
  moreover have "\<forall>e\<in>set (filter (\<lambda>e. event_id e = i) evs). event_id e = i" by simp
  from own_lifecycle [OF this, of key]
  have "length (outbox (server_run key init_server (filter (\<lambda>e. event_id e = i) evs))) \<le> 1"
    by auto
  ultimately show ?thesis by simp
qed

end
