(* ===== verification/JsRegex.thy ===== *)
theory JsRegex
  imports Normalize "HOL-Library.While_Combinator"
begin

text \<open>
  The two \<open>replace\<close> calls of \<open>normalizeReference\<close> (\<^verbatim>\<open>src/server.js\<close>, lines
  24--25) as ECMAScript runs them: \<open>String.prototype.replace\<close> with a global
  regular expression calls \<open>RegExp.prototype[Symbol.replace]\<close>.
  \<^item> It first collects the matches: \<open>lastIndex\<close> starts at 0, and each
    \<open>RegExpBuiltinExec\<close> tries the pattern at \<open>lastIndex\<close>, \<open>lastIndex + 1\<close>, and so
    on up to the length of the string (\<open>find_match\<close>). A match moves
    \<open>lastIndex\<close> to its end, or one further when it is empty (\<open>collect_step\<close>).
    This is the spec's loop \<open>while not done\<close>, kept as a loop with
    \<open>while_option\<close> (\<open>regex_matches\<close>).
  \<^item> Then it assembles the result from the matches and the text between them
    (\<open>assemble\<close>).
  A pattern is a \<open>matcher\<close>: the length of its match anchored at a position, or
  \<open>None\<close>. \<open>dash_class\<close> is \<open>/[\u2013\u2014]/\<close>. \<open>ws_run\<close> is \<open>/\s+/\<close>, whose
  backtracking matcher returns the greedy longest run first. The replacement
  strings contain no \<open>$\<close> pattern, so \<open>GetSubstitution\<close> returns them unchanged.

  The theory proves that this loop always terminates. It also proves that, for the
  two patterns of the source, it computes the scans \<open>replace_dashes\<close> and
  \<open>collapse_ws\<close> that the \<open>Normalize\<close> theory uses.
\<close>

type_synonym matcher = "jsstr \<Rightarrow> nat \<Rightarrow> nat option"

function find_match :: "matcher \<Rightarrow> jsstr \<Rightarrow> nat \<Rightarrow> (nat \<times> nat) option" where
  "find_match m s i =
     (if length s < i then None
      else (case m s i of Some l \<Rightarrow> Some (i, l) | None \<Rightarrow> find_match m s (Suc i)))"
  by pat_completeness auto
termination
  by (relation "measure (\<lambda>(m, s, i). Suc (length s) - i)") auto

definition collect_step :: "matcher \<Rightarrow> jsstr \<Rightarrow> nat \<times> (nat \<times> nat) list \<Rightarrow> nat \<times> (nat \<times> nat) list" where
  "collect_step m s st =
     (case st of (li, rs) \<Rightarrow>
        (case find_match m s li of
           None \<Rightarrow> (li, rs)
         | Some (p, l) \<Rightarrow> (if l = 0 then Suc p else p + l, rs @ [(p, l)])))"

definition regex_matches :: "matcher \<Rightarrow> jsstr \<Rightarrow> (nat \<times> nat) list option" where
  "regex_matches m s =
     map_option snd
       (while_option (\<lambda>(li, rs). find_match m s li \<noteq> None) (collect_step m s) (0, []))"

fun assemble :: "jsstr \<Rightarrow> jsstr \<Rightarrow> (nat \<times> nat) list \<Rightarrow> nat \<Rightarrow> jsstr" where
  "assemble rep s [] n = drop n s"
| "assemble rep s ((p, l) # rs) n =
     (if n \<le> p then take (p - n) (drop n s) @ rep @ assemble rep s rs (p + l)
      else assemble rep s rs n)"

definition regex_replace_all :: "matcher \<Rightarrow> jsstr \<Rightarrow> jsstr \<Rightarrow> jsstr option" where
  "regex_replace_all m rep s = map_option (\<lambda>rs. assemble rep s rs 0) (regex_matches m s)"

definition dash_class :: matcher where
  "dash_class s i = (if i < length s \<and> is_dash (s ! i) then Some 1 else None)"

definition ws_run :: matcher where
  "ws_run s i = (let n = length (takeWhile is_js_ws (drop i s)) in if n = 0 then None else Some n)"

text \<open>
  The matches the loop collects, as a recursive function: the reference the loop
  is proved against.
\<close>

function matches_from :: "matcher \<Rightarrow> jsstr \<Rightarrow> nat \<Rightarrow> (nat \<times> nat) list" where
  "matches_from m s i =
     (case find_match m s i of
        None \<Rightarrow> []
      | Some (p, l) \<Rightarrow>
          (if length s < p \<or> p < i then [] else (p, l) # matches_from m s (if l = 0 then Suc p else p + l)))"
  by pat_completeness auto
termination
  by (relation "measure (\<lambda>(m, s, i). Suc (length s) - i)") auto

declare find_match.simps [simp del] matches_from.simps [simp del]

subsection \<open>The search and the collecting loop\<close>

lemma find_match_bounds:
  "find_match m s i = Some (p, l) \<Longrightarrow> i \<le> p \<and> p \<le> length s \<and> m s p = Some l"
proof (induction m s i rule: find_match.induct)
  case (1 m s i)
  then show ?case
    by (cases "m s i") (auto simp: find_match.simps [of m s i] split: if_splits)
qed

lemma find_match_past: "length s < i \<Longrightarrow> find_match m s i = None"
  by (simp add: find_match.simps [of m s i])

lemma find_match_skip: "i \<le> length s \<Longrightarrow> m s i = None \<Longrightarrow> find_match m s i = find_match m s (Suc i)"
  by (simp add: find_match.simps [of m s i])

lemma find_match_here: "i \<le> length s \<Longrightarrow> m s i = Some l \<Longrightarrow> find_match m s i = Some (i, l)"
  by (simp add: find_match.simps [of m s i])

lemma matches_from_found:
  "find_match m s i = Some (p, l) \<Longrightarrow>
     matches_from m s i = (p, l) # matches_from m s (if l = 0 then Suc p else p + l)"
  using find_match_bounds [of m s i p l] by (simp add: matches_from.simps [of m s i])

lemma matches_from_none: "find_match m s i = None \<Longrightarrow> matches_from m s i = []"
  by (simp add: matches_from.simps [of m s i])

lemma matches_from_ge: "(p, l) \<in> set (matches_from m s i) \<Longrightarrow> i \<le> p"
proof (induction m s i rule: matches_from.induct)
  case (1 m s i)
  show ?case
  proof (cases "find_match m s i")
    case None
    with "1.prems" show ?thesis by (simp add: matches_from_none)
  next
    case (Some a)
    obtain p' l' where a: "a = (p', l')" by fastforce
    with Some have b: "i \<le> p'" by (simp add: find_match_bounds)
    from Some a "1.prems" have "(p, l) = (p', l') \<or> (p, l) \<in> set (matches_from m s (if l' = 0 then Suc p' else p' + l'))"
      by (simp add: matches_from_found)
    with "1.IH" [OF Some a [symmetric]] find_match_bounds [of m s i p' l'] Some a b show ?thesis
      by (auto split: if_splits)
  qed
qed

lemma collect_loop:
  "\<exists>j. while_option (\<lambda>(li, rs). find_match m s li \<noteq> None) (collect_step m s) (i, rs) =
         Some (j, rs @ matches_from m s i)"
proof (induction m s i arbitrary: rs rule: matches_from.induct)
  case (1 m s i)
  show ?case
  proof (cases "find_match m s i")
    case None
    then show ?thesis by (simp add: while_option_unfold [of _ _ "(i, rs)"] matches_from_none)
  next
    case (Some a)
    obtain p l where a: "a = (p, l)" by fastforce
    from "1.IH" [OF Some a [symmetric], of "rs @ [(p, l)]"] Some a find_match_bounds [of m s i p l]
    show ?thesis
      by (simp add: while_option_unfold [of _ _ "(i, rs)"] collect_step_def matches_from_found)
  qed
qed

lemma regex_matches_eq: "regex_matches m s = Some (matches_from m s 0)"
proof -
  obtain j where "while_option (\<lambda>(li, rs). find_match m s li \<noteq> None) (collect_step m s) (0, []) =
      Some (j, matches_from m s 0)"
    using collect_loop [of m s 0 "[]"] by auto
  then show ?thesis by (simp add: regex_matches_def)
qed

subsection \<open>Assembling the result\<close>

lemma assemble_shift:
  assumes "i < length s" and "\<forall>(p, l) \<in> set rs. Suc i \<le> p"
  shows "assemble rep s rs i = s ! i # assemble rep s rs (Suc i)"
proof (cases rs)
  case Nil
  with assms(1) show ?thesis by (simp add: Cons_nth_drop_Suc)
next
  case (Cons r rest)
  obtain p l where r: "r = (p, l)" by fastforce
  with Cons assms(2) have "Suc i \<le> p" by auto
  then have "take (p - i) (drop i s) = s ! i # take (p - Suc i) (drop (Suc i) s)"
    using assms(1) by (simp add: Cons_nth_drop_Suc [symmetric] Suc_diff_Suc [symmetric])
  with Cons r \<open>Suc i \<le> p\<close> show ?thesis by simp
qed

lemma assemble_skip:
  assumes "i < length s" and "m s i = None"
  shows "assemble rep s (matches_from m s i) i = s ! i # assemble rep s (matches_from m s (Suc i)) (Suc i)"
proof -
  have f: "find_match m s i = find_match m s (Suc i)"
    using assms by (simp add: find_match_skip)
  have eq: "matches_from m s i = matches_from m s (Suc i)"
  proof (cases "find_match m s (Suc i)")
    case None
    with f show ?thesis by (simp add: matches_from_none)
  next
    case (Some a)
    then obtain p l where "find_match m s (Suc i) = Some (p, l)" by (cases a) auto
    with f show ?thesis by (simp add: matches_from_found)
  qed
  have "\<forall>(p, l) \<in> set (matches_from m s (Suc i)). Suc i \<le> p"
    using matches_from_ge by fast
  with assms(1) show ?thesis by (simp add: eq assemble_shift)
qed

lemma assemble_match:
  assumes "i \<le> length s" and "m s i = Some l" and "0 < l"
  shows "assemble rep s (matches_from m s i) i = rep @ assemble rep s (matches_from m s (i + l)) (i + l)"
  using assms by (simp add: find_match_here matches_from_found)

lemma assemble_end:
  assumes "length s \<le> i" and "m s i = None"
  shows "assemble rep s (matches_from m s i) i = []"
proof -
  have "find_match m s i = None"
    using assms by (cases "i = length s") (simp_all add: find_match_skip find_match_past)
  then show ?thesis using assms(1) by (simp add: matches_from_none)
qed

subsection \<open>The two patterns of the source\<close>

lemma assemble_dash: "assemble [0x2D] s (matches_from dash_class s i) i = replace_dashes (drop i s)"
proof (induction "length s - i" arbitrary: i rule: less_induct)
  case less
  show ?case
  proof (cases "i < length s")
    case False
    then show ?thesis by (simp add: assemble_end dash_class_def replace_dashes_def)
  next
    case True
    then have d: "drop i s = s ! i # drop (Suc i) s" by (simp add: Cons_nth_drop_Suc)
    have ih: "assemble [0x2D] s (matches_from dash_class s (Suc i)) (Suc i) = replace_dashes (drop (Suc i) s)"
      using True by (intro less) simp
    show ?thesis
    proof (cases "is_dash (s ! i)")
      case dash: True
      with True have "dash_class s i = Some 1" by (simp add: dash_class_def)
      with True ih dash show ?thesis
        by (simp add: assemble_match d replace_dashes_def dash_to_hyphen_def)
    next
      case False
      then have "dash_class s i = None" by (simp add: dash_class_def)
      with True ih False show ?thesis
        by (simp add: assemble_skip d replace_dashes_def dash_to_hyphen_def)
    qed
  qed
qed

lemma assemble_ws: "assemble [0x20] s (matches_from ws_run s i) i = collapse_ws (drop i s)"
proof (induction "length s - i" arbitrary: i rule: less_induct)
  case less
  show ?case
  proof (cases "i < length s")
    case False
    then show ?thesis by (simp add: assemble_end ws_run_def)
  next
    case True
    then have d: "drop i s = s ! i # drop (Suc i) s" by (simp add: Cons_nth_drop_Suc)
    show ?thesis
    proof (cases "is_js_ws (s ! i)")
      case ws: True
      define l where "l = length (takeWhile is_js_ws (drop i s))"
      have l: "0 < l" using d ws by (simp add: l_def)
      have run: "ws_run s i = Some l" using l by (simp add: ws_run_def l_def Let_def)
      have l_eq: "l = Suc (length (takeWhile is_js_ws (drop (Suc i) s)))"
        using d ws by (simp add: l_def)
      have rest: "dropWhile is_js_ws (drop (Suc i) s) = drop (i + l) s"
        by (simp add: l_eq dropWhile_eq_drop [of is_js_ws "drop (Suc i) s"] add.commute)
      have "assemble [0x20] s (matches_from ws_run s (i + l)) (i + l) = collapse_ws (drop (i + l) s)"
        using True l by (intro less) simp
      with True run l ws d rest show ?thesis by (simp add: assemble_match)
    next
      case False
      then have "ws_run s i = None" using d by (simp add: ws_run_def)
      moreover have "assemble [0x20] s (matches_from ws_run s (Suc i)) (Suc i) = collapse_ws (drop (Suc i) s)"
        using True by (intro less) simp
      ultimately show ?thesis using True False d by (simp add: assemble_skip)
    qed
  qed
qed

lemma replace_dashes_regex: "regex_replace_all dash_class [0x2D] s = Some (replace_dashes s)"
  by (simp add: regex_replace_all_def regex_matches_eq assemble_dash [of s 0, simplified])

lemma collapse_ws_regex: "regex_replace_all ws_run [0x20] s = Some (collapse_ws s)"
  by (simp add: regex_replace_all_def regex_matches_eq assemble_ws [of s 0, simplified])

text \<open>
  The replace loop of \<open>RegExp.prototype[Symbol.replace]\<close> terminates for
  every pattern, every replacement and every string: each round moves
  \<open>lastIndex\<close> strictly forward, and it never passes the end of the string while
  a match is still found.
\<close>

theorem regex_replace_terminates: "\<exists>r. regex_replace_all m rep s = Some r"
proof -
  have "\<exists>t. while_option (\<lambda>(li, rs). find_match m s li \<noteq> None) (collect_step m s) (0, []) = Some t"
  proof (rule measure_while_option_Some [where P = "\<lambda>_. True" and f = "\<lambda>(li, rs). Suc (length s) - li"])
    fix st :: "nat \<times> (nat \<times> nat) list"
    assume "(\<lambda>(li, rs). find_match m s li \<noteq> None) st"
    then obtain li rs p l where st: "st = (li, rs)" and f: "find_match m s li = Some (p, l)"
      by (cases st) auto
    from find_match_bounds [OF f] have "li \<le> p" "p \<le> length s" by simp_all
    then show "True \<and> (\<lambda>(li, rs). Suc (length s) - li) (collect_step m s st)
        < (\<lambda>(li, rs). Suc (length s) - li) st"
      using st f by (auto simp: collect_step_def)
  qed simp
  then show ?thesis by (auto simp: regex_replace_all_def regex_matches_def)
qed

text \<open>
  C17: the normaliser's two \<open>replace\<close> calls, run by the ECMAScript algorithm on
  the trimmed string, compute exactly \<open>normalize_string\<close>: the scans of the
  \<open>Normalize\<close> theory are equivalent to the specified regular-expression
  semantics of \<open>/[\u2013\u2014]/g\<close> and of \<open>/\s+/g\<close>.
\<close>

theorem normalize_string_regex:
  "Option.bind (regex_replace_all dash_class [0x2D] (js_trim s)) (regex_replace_all ws_run [0x20]) =
     Some (normalize_string s)"
  by (simp add: replace_dashes_regex collapse_ws_regex normalize_string_def)

end
