(* ===== verification/Spec2Isabelle.thy ===== *)
theory Spec2Isabelle
  imports JsonParse EventLoop JsRegex
begin

text \<open>
  \<^bold>\<open>A verification model of the ESV proxy (\<^verbatim>\<open>src/server.js\<close>).\<close>

  The program is a single Express application (\<open>const app = express()\<close>, line 3).
  A request passes the CORS middleware (lines 6--12), then the routes
  \<open>/healthz\<close> (line 42) and \<open>/passage\<close> (lines 44--67). \<open>/passage\<close>:
  \<^item> normalises the query with \<open>normalizeReference\<close> (lines 21--26);
  \<^item> builds the upstream URL with \<open>URLSearchParams\<close> (lines 49--59);
  \<^item> awaits \<open>esvGet\<close> (lines 28--40), which makes one \<open>fetch\<close> with the
    credential \<open>ESV_API_KEY\<close>;
  \<^item> reshapes the JSON it gets back and sends it with \<open>res.json\<close>.
  The credential is read once at start-up (lines 15--19). Without it the process
  exits before \<open>app.listen\<close> (lines 69--72). The server then serves many
  requests at once, each suspended at its own \<open>await\<close>. No state is shared
  between requests except the credential.

  \<^bold>\<open>Theories.\<close>
  \<^item> \<open>JsPrelude\<close>: JavaScript strings as lists of UTF-16 code units (\<open>16 word\<close>),
    ASCII literals \<open>js ''...''\<close>, the \<open>js_eval\<close> collection of evaluation rules, the
    separator join \<open>join_with\<close>, and shared lemmas on lists, code units, bytes and
    digits.
  \<^item> \<open>JsValue\<close>: the values the code touches, with their operations.
    \<open>req.query.q\<close> is \<open>qval\<close>, parsed JSON is \<open>json\<close>, and \<open>Error\<close> objects are
    \<open>js_error\<close>. The operations are truthiness, \<open>String()\<close>/\<open>ToString\<close>,
    \<open>Array.prototype.join\<close>, property reads, the \<open>Error\<close> constructors and
    \<open>Error.prototype.toString\<close>, and \<open>dec_string\<close>, the decimal rendering of a
    status. \<open>ToString\<close> of parsed JSON (\<open>string_of_json\<close>, \<open>array_join\<close>,
    \<open>new_Error_of\<close>) returns \<open>js_error + jsstr\<close>: an object that \<open>JSON.parse\<close>
    gave an own \<open>toString\<close> member cannot be converted, and V8 throws
    \<open>TypeError: Cannot convert object to primitive value\<close>.
  \<^item> \<open>Normalize\<close>: \<open>normalizeReference\<close> as \<open>normalize_reference\<close>, one definition
    per step of its method chain. It is proved equal to the specification
    \<open>normalize_spec\<close> (words joined by single spaces). Idempotence, the normal
    form of every result, the blank-input criterion and preservation of content
    follow from that.
  \<^item> \<open>JsRegex\<close>: the two \<open>replace\<close> calls as ECMAScript runs them.
    \<open>RegExp.prototype[Symbol.replace]\<close> collects the matches from \<open>lastIndex\<close>, a
    loop kept as \<open>while_option\<close>, then assembles the result. The theory proves
    that this terminates for every pattern, and that for \<open>/[\u2013\u2014]/g\<close> and
    \<open>/\s+/g\<close> it computes the scans of \<open>Normalize\<close>.
  \<^item> \<open>Async\<close>: the interface between handlers and the upstream.
    \<^item> A handler is a program \<open>'a prog\<close> over one effect, \<open>Await r k\<close>: issue
      the outbound request \<open>r\<close>, resume with \<open>k\<close>.
    \<^item> An \<open>upstream\<close> answers a request with a response or a rejection.
    \<^item> \<open>run_prog\<close> runs a program, returning its outbound requests with its
      result.
  \<^item> \<open>Fetcher\<close>: \<open>esvGet\<close> as \<open>esv_get\<close>, the request with its
    \<open>Authorization: Token <key>\<close> header. \<open>esv_get_result\<close> covers the branches
    after the await: an unparsable body is read as \<open>{}\<close>, a non-2xx status throws
    \<open>Error(detail || "HTTP <status>")\<close> (or the \<open>TypeError\<close> of converting the
    detail), and a rejection is passed on.
  \<^item> \<open>Unicode\<close>: a JS string read as scalar values, a lone surrogate becoming
    U+FFFD (\<open>utf16_scalars\<close>), then encoded as UTF-8 (\<open>utf8_encode\<close>). This is
    the conversion under both \<open>URLSearchParams\<close> and \<open>res.json\<close>. The strict
    decoder \<open>utf8_decode\<close>, \<open>utf16_encode\<close> and \<open>to_well_formed\<close>
    (\<open>String.prototype.toWellFormed\<close>) are the specification of the receiving
    side.
  \<^item> \<open>UrlParams\<close>: the outbound URL, made of the seven parameters in insertion
    order and the WHATWG urlencoded serializer. \<open>form_parse\<close>, the WHATWG
    urlencoded parser, states what the upstream reads back.
  \<^item> \<open>Server\<close>: the request and response records, and these parts of the
    application:
    \<^item> the CORS middleware;
    \<^item> the \<open>/passage\<close> handler: its 400 guard, the await, the reply and the
      \<open>catch\<close> block;
    \<^item> \<open>/healthz\<close>;
    \<^item> Express's routing: registration order, \<open>HEAD\<close> served by \<open>GET\<close> routes,
      case-insensitive paths with an optional trailing slash, and the default
      404;
    \<^item> the application \<open>app_handle\<close>;
    \<^item> start-up (\<open>startup\<close>, \<open>serve\<close>).
  \<^item> \<open>Wire\<close>: what is sent.
    \<^item> \<open>JSON.stringify\<close> (\<open>json_stringify\<close>, with the ES2019 escaping of lone
      surrogates);
    \<^item> the UTF-8 body, with no body for \<open>HEAD\<close> and 204;
    \<^item> the well-typed responses (\<open>response_wf\<close>).
  \<^item> \<open>JsonParse\<close>: \<open>await res.json()\<close> of \<open>esvGet\<close> (line 35), the reader a
    JavaScript client applies to the replies as well.
    \<^item> \<open>utf8_decode_whatwg\<close>: the UTF-8 decoder of the Encoding standard, byte by
      byte, with U+FFFD for ill-formed sequences and the byte order mark dropped;
    \<^item> \<open>json_parse\<close>: \<open>JSON.parse\<close> over the ECMA-404 grammar, the mutually
      recursive \<open>json_value\<close>, \<open>json_elements\<close> and \<open>json_members\<close>;
    \<^item> \<open>res_json\<close> and \<open>fetch_response\<close>: an upstream answer as \<open>esvGet\<close> sees it.
  \<^item> \<open>EventLoop\<close>: many requests at once. Arrivals and fetch settlements of
    connections form an explicit event sequence. \<open>server_step\<close> runs a handler up
    to its await or resumes it, and \<open>server_run\<close> folds over the events.
  \<^item> This theory: the properties that span the components. The credential never
    reaches a client, and a request is followed from the upstream's bytes to the
    client's.

  \<^bold>\<open>What is proved.\<close>
  \<^item> \<open>/passage\<close>:
    \<^item> a blank query is answered 400 without any outbound request;
    \<^item> otherwise exactly one request is made, to the URL of the normalised
      query, with the credential only in its header;
    \<^item> each upstream outcome has its reply stated exactly: 2xx with passages,
      non-2xx with or without detail, a rejected fetch, and an unparsable,
      \<open>null\<close> or malformed body, including passages or a detail whose
      \<open>ToString\<close> throws;
    \<^item> every reply is either a full success or an error payload with a
      non-empty message.
  \<^item> The application:
    \<^item> every response is well-typed and carries the CORS headers;
    \<^item> \<open>/healthz\<close> is answered 200 whatever the upstream does, and \<open>OPTIONS\<close>
      204;
    \<^item> the response does not depend on the credential;
    \<^item> every JSON reply is an object of string members that a client reads back
      exactly from the bytes on the wire with \<open>res.json()\<close>;
    \<^item> end to end, from the upstream's bytes to the client's: a 2xx answer with
      passages gives \<open>{query, text}\<close>, and an answer that is not JSON gives an
      empty text or \<open>HTTP <status>\<close>.
  \<^item> Reading the upstream body:
    \<^item> \<open>JSON.parse\<close> of what \<open>JSON.stringify\<close> writes gives the value back, so
      \<open>esvGet\<close> resolves with exactly what the upstream serialised;
    \<^item> on well-formed UTF-8 the decoder of the Encoding standard agrees with the
      strict decoder.
  \<^item> Concurrency:
    \<^item> facts of the loop itself, which hold for every handler: in every reachable
      state no connection is answered twice (\<open>server_run_inv\<close>), and a
      connection's responses depend on its own events only (\<open>sent_to_run\<close>).
      The model has no state shared between handlers, which matches the code:
      requests share only the credential;
    \<^item> refinement: interleaved with anything, a request gets the response of
      the sequential model;
    \<^item> liveness: once its fetch settles, every arrived request has exactly one
      response;
    \<^item> at most one outbound \<open>fetch\<close> per connection, whatever the interleaving.
  \<^item> The normaliser:
    \<^item> refinement of the specification;
    \<^item> equivalence with the ECMAScript replace algorithm (whose loop terminates
      for every pattern, \<open>regex_replace_terminates\<close>);
    \<^item> idempotence, the normal form, the blank criterion and preservation of
      content;
    \<^item> the coercion of absent, array and object queries.
  \<^item> The URL:
    \<^item> the query string always has exactly the seven fields, with \<open>q\<close> first;
    \<^item> the urlencoded parser returns every serialised pair, with each string as
      its \<open>toWellFormed\<close>, so the upstream receives the normalised reference
      and the six fixed flags;
    \<^item> UTF-8 transport of any string yields its \<open>toWellFormed\<close>;
    \<^item> the URL has 206 fixed code units plus at most 9 per code unit of the
      reference, a bound that CJK references reach.
  \<^item> \<open>esvGet\<close>: it succeeds exactly on a 2xx status, and a status message reads
    back as the status.
  Each property with a hypothesis has a witness that evaluates the model on the
  spec's examples (\<open>John 3:16\<close>, an upstream 404 with \<open>detail: "not found"\<close>,
  interleaved requests).

  \<^bold>\<open>Termination and bounds.\<close> Every function of the model is total and
  executable. The three recursions that are not structural are \<open>function\<close>s with
  a proved measure:
  \<^item> \<open>collapse_ws\<close> and \<open>js_words\<close>, with the measure \<open>length\<close>;
  \<^item> the search \<open>find_match\<close>, with the distance of \<open>lastIndex\<close> to the end of
    the string (its reference \<open>matches_from\<close> uses the same measure).
  The ECMAScript replace loop is a \<open>while_option\<close>, and its termination is a
  theorem (\<open>measure_while_option_Some\<close> with the same distance). The UTF-8
  decoder of the Encoding standard reads a byte again after an ill-formed
  sequence; it terminates by the lexicographic order of the remaining bytes and
  the bytes still needed. \<open>JSON.parse\<close> takes fuel, proved terminating by the
  measure \<open>2 * fuel\<close> (plus one for arrays and objects). Fuel is spent only when
  a bracket, a brace or a comma is consumed, so the length of the text is always
  enough: any larger fuel gives the same result (\<open>json_fuel_enough\<close>). No other
  fuel is needed. The program's only suspension, the awaited \<open>fetch\<close>,
  is the single \<open>Await\<close> of a handler. The transport decides when it settles,
  and liveness is stated from that point on. Code units are \<open>16 word\<close> and
  bytes \<open>8 word\<close>, as in the engine. HTTP statuses are natural numbers: the code
  only compares them with 200 and 299 and prints them. Lengths are those of
  the JS strings, in code units: UTF-8 takes at most 3 bytes per code unit (a
  surrogate pair is 4 bytes for 2 units) and percent-encoding at most 3 code
  units per byte.

  \<^bold>\<open>Not modelled.\<close>
  \<^item> Libraries the code only calls: Express's query-string parser and the
    \<open>fetch\<close> transport. Their results are inputs of the model: the parsed
    \<open>q\<close>, and the status and body bytes of the response or the rejection.
    Express's parser depends on its version and its query parser setting, which
    the repository does not pin.
  \<^item> A JSON number is kept as its rendering. The conversion of a number literal
    to a double and back to text is the parameter \<open>nr\<close> of \<open>json_parse\<close>, and
    the theorems hold for every such conversion that renders the literals in
    question as themselves. The texts of the three \<open>TypeError\<close>s are V8's. The query parser is not
    modelled, so a query object may have any keys; \<open>qs\<close>, Express's extended
    parser, drops keys such as \<open>toString\<close> that would shadow
    \<open>Object.prototype\<close>, which is why \<open>String()\<close> of a query object is always
    \<open>"[object Object]"\<close>.
  \<^item> The headers Express adds itself (\<open>ETag\<close>, \<open>X-Powered-By\<close>,
    \<open>Content-Length\<close>) and the HTML of its default 404 page.
  \<^item> Logging and socket binding, which are pure I/O.
  Every statement of \<^verbatim>\<open>src/server.js\<close> that computes or sends something is
  modelled.
\<close>

lemma router_key_independent:
  assumes "\<forall>r r'. req_url r = req_url r' \<longrightarrow> u r = u r'"
  shows "snd (run_prog u (router k1 req)) = snd (run_prog u (router k2 req))"
proof -
  have "\<And>url. u (esv_request k1 url) = u (esv_request k2 url)"
    using assms by (simp add: esv_request_def)
  then show ?thesis
    by (cases "normalize_reference (req_q req) = []")
       (simp_all add: router_def passage_handler_blank run_passage_handler)
qed

text \<open>
  C19: the credential never influences what a client receives: whenever the upstream's
  answer depends on the request URL only, two servers with different keys give every
  request the same response.
\<close>

theorem response_independent_of_key:
  assumes "\<forall>r r'. req_url r = req_url r' \<longrightarrow> u r = u r'"
  shows "snd (run_prog u (app_handle k1 req)) = snd (run_prog u (app_handle k2 req))"
  using router_key_independent [OF assms, of k1 req k2] by (simp add: run_app_handle)
lemma response_independent_of_key_witness:
  "snd (run_prog (\<lambda>r. FetchResponse 200 (Some (JObj [(js ''passages'', JArr [JStr (js ''text'')])])))
      (app_handle (js ''key-one'') \<lparr>req_method = GET, req_path = js ''/passage'', req_q = QString (js ''Ps 23'')\<rparr>))
   = snd (run_prog (\<lambda>r. FetchResponse 200 (Some (JObj [(js ''passages'', JArr [JStr (js ''text'')])])))
      (app_handle (js ''key-two'') \<lparr>req_method = GET, req_path = js ''/passage'', req_q = QString (js ''Ps 23'')\<rparr>))"
  by (rule response_independent_of_key) simp


subsection \<open>From the upstream's bytes to the client's\<close>

lemma app_passage_get:
  "normalize_reference qv = q \<Longrightarrow> q \<noteq> [] \<Longrightarrow>
   snd (run_prog u (app_handle key \<lparr>req_method = GET, req_path = js ''/passage'', req_q = qv\<rparr>)) =
     with_cors (passage_reply q (esv_get_result (u (esv_request key (esv_url q)))))"
  by (simp add: run_app_handle router_def run_passage_handler is_get_def route_matches_def ascii_lower_def js_def)

lemma passage_reply_passages:
  "passage_reply q (Inr (JObj [(js ''passages'', JArr (map JStr ps))])) =
     (200, BodyJson (string_object [(js ''query'', q), (js ''text'', js_trim (join_with [0x0A] ps))]))"
  by (simp add: passage_reply_def passages_text_def json_truthy_def array_join_strings string_object_def)

lemma wire_body_json:
  "st \<noteq> 204 \<Longrightarrow> wire_body GET (with_cors (st, BodyJson j)) = Some (utf8_bytes (json_stringify j))"
  by (simp add: wire_body_def with_cors_def body_text_def)

text \<open>
  C7: the whole path of a successful request. The upstream answers a 2xx status
  with the UTF-8 bytes of \<open>{"passages": [p1, ..., pn]}\<close>. \<open>esvGet\<close> decodes and parses
  them, the handler joins and trims the passages, \<open>res.json\<close> serialises the
  reply, and a client reading the bytes on the wire with \<open>res.json()\<close> gets
  \<open>{query, text}\<close>: the normalised reference and the passages joined by newlines
  and trimmed.
\<close>

theorem passage_end_to_end:
  assumes "normalize_reference qv \<noteq> []" and "response_ok st"
  shows "Option.bind
           (wire_body GET (snd (run_prog
              (\<lambda>r. fetch_response nr st (utf8_bytes (json_stringify (JObj [(js ''passages'', JArr (map JStr ps))]))))
              (app_handle key \<lparr>req_method = GET, req_path = js ''/passage'', req_q = qv\<rparr>))))
           (res_json nr')
         = Some (string_object [(js ''query'', normalize_reference qv), (js ''text'', js_trim (join_with [0x0A] ps))])"
proof -
  have rj: "res_json nr (utf8_bytes (json_stringify (JObj [(js ''passages'', JArr (map JStr ps))]))) =
      Some (JObj [(js ''passages'', JArr (map JStr ps))])"
    by (rule res_json_stringify) simp
  have "esv_get_result (fetch_response nr st (utf8_bytes (json_stringify (JObj [(js ''passages'', JArr (map JStr ps))]))))
      = Inr (JObj [(js ''passages'', JArr (map JStr ps))])"
    using assms(2) unfolding fetch_response_def esv_get_result_def rj by (simp add: parsed_or_empty_def)
  with assms(1) show ?thesis
    by (simp add: app_passage_get passage_reply_passages wire_body_json res_json_string_object)
qed

lemma passage_end_to_end_witness:
  "Option.bind
     (wire_body GET (snd (run_prog
        (\<lambda>r. fetch_response id 200 (utf8_bytes (json_stringify
               (JObj [(js ''passages'', JArr (map JStr [js '' John 3:16 For God so loved\<newline>'']))]))))
        (app_handle (js ''key'') \<lparr>req_method = GET, req_path = js ''/passage'', req_q = QString (js ''John  3:16'')\<rparr>))))
     (res_json id)
   = Some (string_object [(js ''query'', normalize_reference (QString (js ''John  3:16''))),
                          (js ''text'', js_trim (join_with [0x0A] [js '' John 3:16 For God so loved\<newline>'']))])"
  by (rule passage_end_to_end) (simp_all add: js_eval)

lemma esv_get_markup:
  "esv_get_result (fetch_response nr st (utf8_bytes (0x3C # html))) =
     (if response_ok st then Inr (JObj []) else Inl (new_Error (js ''HTTP '' @ dec_string st)))"
  by (simp add: fetch_response_def esv_get_result_def res_json_markup parsed_or_empty_def upstream_message_def
      new_Error_of_JStr)

text \<open>
  C8: an upstream answer that is not JSON, such as the HTML page of a proxy
  (its first character is \<open><\<close>), never reaches the client as such.
  \<open>res.json()\<close> rejects, \<open>.catch\<close> makes the data \<open>{}\<close>, and the client reads
  either \<open>{query, text: ""}\<close> on a 2xx status, or \<open>{error: "HTTP <status>"}\<close> with
  status 500 otherwise.
\<close>

theorem passage_markup_end_to_end:
  assumes "normalize_reference qv \<noteq> []"
  shows "Option.bind
           (wire_body GET (snd (run_prog (\<lambda>r. fetch_response nr st (utf8_bytes (0x3C # html)))
              (app_handle key \<lparr>req_method = GET, req_path = js ''/passage'', req_q = qv\<rparr>))))
           (res_json nr')
         = Some (if response_ok st then string_object [(js ''query'', normalize_reference qv), (js ''text'', [])]
                 else string_object [(js ''error'', js ''HTTP '' @ dec_string st)])"
proof (cases "response_ok st")
  case True
  have "passage_reply (normalize_reference qv) (Inr (JObj [])) =
      (200, BodyJson (string_object [(js ''query'', normalize_reference qv), (js ''text'', [])]))"
    by (simp add: passage_reply_def passages_text_def array_join_def js_trim_def trim_start_def trim_end_def
        string_object_def)
  with True assms show ?thesis
    by (simp add: app_passage_get esv_get_markup wire_body_json res_json_string_object)
next
  case False
  have "passage_reply (normalize_reference qv) (Inl (new_Error (js ''HTTP '' @ dec_string st))) =
      (500, BodyJson (string_object [(js ''error'', js ''HTTP '' @ dec_string st)]))"
    by (simp add: passage_reply_def catch_message_new_Error error_json_def string_object_def)
  with False assms show ?thesis
    by (simp add: app_passage_get esv_get_markup wire_body_json res_json_string_object)
qed

lemma passage_markup_end_to_end_witness:
  "Option.bind
     (wire_body GET (snd (run_prog (\<lambda>r. fetch_response id 502 (utf8_bytes (0x3C # js ''html>Bad gateway</html>'')))
        (app_handle (js ''key'') \<lparr>req_method = GET, req_path = js ''/passage'', req_q = QString (js ''Gen 1:1'')\<rparr>))))
     (res_json id)
   = Some (if response_ok 502 then string_object [(js ''query'', normalize_reference (QString (js ''Gen 1:1''))), (js ''text'', [])]
           else string_object [(js ''error'', js ''HTTP '' @ dec_string 502)])"
  by (rule passage_markup_end_to_end) (simp add: js_eval)

end
